theory Spec2Isabelle
  imports Complex_Main "HOL-Library.Sublist"
begin

section \<open>JavaScript string primitives\<close>

text \<open>
  Strings are lists of code units; the model covers the code units below 256, which is
  where every marker the program searches for lives. \<open>is_space\<close> is the class
  \<^verbatim>\<open>\s\<close> of a regular expression (and what \<^verbatim>\<open>trim()\<close> removes) on that range:
  tab, line feed, vertical tab, form feed, carriage return, space and no-break space.
\<close>

definition is_space :: "char \<Rightarrow> bool" where
  "is_space c = (c \<in> set [CHR 0x09, CHR 0x0A, CHR 0x0B, CHR 0x0C, CHR 0x0D, CHR 0x20, CHR 0xA0])"

text \<open>The first position at which \<open>p\<close> occurs in \<open>s\<close>, scanning from the left.\<close>

fun find_sub :: "string \<Rightarrow> string \<Rightarrow> nat option" where
  "find_sub p [] = (if p = [] then Some 0 else None)"
| "find_sub p (c # cs) =
     (if prefix p (c # cs) then Some 0 else map_option Suc (find_sub p cs))"

text \<open>
  \<^verbatim>\<open>s.indexOf(p, from)\<close>: the first position at or after \<open>from\<close> where \<open>p\<close> occurs;
  \<open>None\<close> stands for the result \<^verbatim>\<open>-1\<close>. A start beyond the end is clamped to the length.
\<close>

definition indexOf :: "string \<Rightarrow> string \<Rightarrow> nat \<Rightarrow> nat option" where
  "indexOf s p from =
     map_option (\<lambda>i. i + min from (length s)) (find_sub p (drop from s))"

text \<open>\<^verbatim>\<open>s.includes(p, from)\<close>.\<close>

definition js_includes :: "string \<Rightarrow> string \<Rightarrow> nat \<Rightarrow> bool" where
  "js_includes s p from = (indexOf s p from \<noteq> None)"

text \<open>
  \<^verbatim>\<open>s.substring(a, b)\<close>: the two arguments are swapped when \<open>a > b\<close> and both are
  clamped to the length; \<^verbatim>\<open>s.substring(a)\<close> is \<open>drop a s\<close>.
\<close>

definition substring :: "string \<Rightarrow> nat \<Rightarrow> nat \<Rightarrow> string" where
  "substring s a b = take (max a b - min a b) (drop (min a b) s)"

section \<open>Block extraction (ChatInterface.tsx)\<close>

definition startMarker :: string where
  "startMarker = ''```html''"

definition endMarker :: string where
  "endMarker = ''```''"

text \<open>
  \<^verbatim>\<open>text.match(/```html\s*/)\<close>: the match starts at the first occurrence of the opening
  marker and the greedy \<^verbatim>\<open>\s*\<close> takes the whole run of white space behind it. The result
  is the pair of \<^verbatim>\<open>match.index\<close> and \<^verbatim>\<open>match[0].length\<close>.
\<close>

definition match_html_open :: "string \<Rightarrow> (nat \<times> nat) option" where
  "match_html_open text =
     (case find_sub startMarker text of
        None \<Rightarrow> None
      | Some index \<Rightarrow>
          Some (index,
                length startMarker +
                length (takeWhile is_space (drop (index + length startMarker) text))))"

text \<open>
  Where the content starts for an opening marker found at index \<open>i\<close>:
  \<^verbatim>\<open>match.index + match[0].length\<close>.
\<close>

definition content_start :: "string \<Rightarrow> nat \<Rightarrow> nat" where
  "content_start t i =
     i + (length startMarker + length (takeWhile is_space (drop (i + length startMarker) t)))"

text \<open>
  \<^verbatim>\<open>extractHtml\<close> returns a string or null. \<open>extractHtml_tagged\<close> is the same function
  with the branch that produced the string recorded beside it: \<open>True\<close> for the
  "closed block" return, \<open>False\<close> for the "open block (streaming)" return.
\<close>

definition extractHtml_tagged :: "string \<Rightarrow> (string \<times> bool) option" where
  "extractHtml_tagged text =
     (case match_html_open text of
        None \<Rightarrow> None
      | Some (index, len) \<Rightarrow>
          (let contentStartIndex = index + len in
           case indexOf text endMarker contentStartIndex of
             Some endIndex \<Rightarrow> Some (substring text contentStartIndex endIndex, True)
           | None \<Rightarrow> Some (drop contentStartIndex text, False)))"


text \<open>
  The leftmost match of \<^verbatim>\<open>/```TAG[\s\S]*?```/\<close> for an opening marker \<open>p\<close>: the engine tries
  the start positions from the left; at a position where \<open>p\<close> stands, the lazy
  \<^verbatim>\<open>[\s\S]*?\<close> stops at the first closing fence behind the marker, and when there is none
  the engine moves on to the next start position. The result is the pair of the first
  index of the match and the index just behind it.
\<close>

fun match_fenced :: "string \<Rightarrow> string \<Rightarrow> (nat \<times> nat) option" where
  "match_fenced p [] = None"
| "match_fenced p (c # cs) =
     (case (if prefix p (c # cs) then find_sub endMarker (drop (length p) (c # cs)) else None) of
        Some k \<Rightarrow> Some (0, length p + k + length endMarker)
      | None \<Rightarrow> map_option (\<lambda>(a, b). (Suc a, Suc b)) (match_fenced p cs))"

text \<open>\<^verbatim>\<open>s.replace(/```TAG[\s\S]*?```/, '')\<close>: the first match is cut out, if there is one.\<close>

definition replace_fenced :: "string \<Rightarrow> string \<Rightarrow> string" where
  "replace_fenced p s =
     (case match_fenced p s of None \<Rightarrow> s | Some (a, b) \<Rightarrow> take a s @ drop b s)"

datatype Role = User | Model



section \<open>Data model (types.ts)\<close>

record FileData =
  name :: string
  data :: string
  mimeType :: string

record ExecutionPlan =
  title :: string
  steps :: "string list"

text \<open>
  A message. \<^verbatim>\<open>id\<close> and \<^verbatim>\<open>text\<close> are \<open>msg_id\<close> and \<open>msg_text\<close> here; ids come from
  \<^verbatim>\<open>uuidv4()\<close>, modelled as a supply of fresh numbers. The optional flags are only ever
  tested for truthiness, so an absent flag is \<open>False\<close>.
\<close>

record Message =
  msg_id :: nat
  role :: Role
  msg_text :: string
  isError :: bool
  isStreaming :: bool
  planData :: "ExecutionPlan option"

datatype AppState = idle | planning | waiting_approval | executing | completed

section \<open>The streaming service (streamMessage)\<close>

text \<open>
  A thrown value, with the three properties the handler reads; \<open>None\<close> is an absent
  property (for \<open>status\<close>, also one that is not a string).
\<close>

record JsError =
  message :: "string option"
  status :: "string option"
  statusText :: "string option"

definition new_Error :: "string \<Rightarrow> JsError" where
  "new_Error m = \<lparr>message = Some m, status = None, statusText = None\<rparr>"

text \<open>\<^verbatim>\<open>error.message?.includes(p)\<close>, as a truth value.\<close>

definition message_includes :: "JsError \<Rightarrow> string \<Rightarrow> bool" where
  "message_includes e p = (case message e of None \<Rightarrow> False | Some m \<Rightarrow> js_includes m p 0)"

record FileMetadata =
  uri :: string
  meta_mimeType :: string

datatype Part =
    PartFileData string string
  | PartInlineData string string
  | PartText string

text \<open>
  What the world does during one iteration of the retry loop: the outcome of
  \<^verbatim>\<open>ai.files.upload\<close> for a file (\<open>Inl\<close>: it throws, with the message when the thrown
  value is an \<^verbatim>\<open>Error\<close>; \<open>Inr\<close>: the metadata's \<^verbatim>\<open>uri\<close>, if it has one, and its
  \<^verbatim>\<open>mimeType\<close>), the \<^verbatim>\<open>chunk.text\<close> of every chunk the stream delivers, and the error
  that ends the stream, if one does (thrown by \<^verbatim>\<open>sendMessageStream\<close> itself when no chunk
  was delivered).
\<close>

record AttemptWorld =
  files_upload :: "FileData \<Rightarrow> string option + (string option \<times> string)"
  stream_chunks :: "string option list"
  stream_error :: "JsError option"

datatype ChatInit = SessionReady | InitThrows JsError | InitNoSession

record StreamWorld =
  chat_init :: ChatInit
  attempt_world :: "nat \<Rightarrow> AttemptWorld"

text \<open>What one call of the generator does, in order, and how it ends.\<close>

datatype Event =
    UploadCall FileData
  | Sent "Part list"
  | Yielded string
  | Delayed nat

datatype Outcome = Returned | Thrown JsError

definition maxAttempts :: nat where
  "maxAttempts = 3"

text \<open>
  \<^verbatim>\<open>(file.data.length * 0.75) / (1024 * 1024)\<close>. The double arithmetic is exact here
  (\<open>0.75\<close> and \<open>1024 * 1024\<close> are dyadic, a string's length is below \<open>2^53\<close>), so the value
  is the rational number.
\<close>

definition sizeMB :: "FileData \<Rightarrow> rat" where
  "sizeMB file = (of_nat (length (data file)) * 0.75) / (1024 * 1024)"

text \<open>Decimal digits of a natural number, as template literals print it.\<close>

fun string_of_nat :: "nat \<Rightarrow> string" where
  "string_of_nat n =
     (if n < 10 then [''0123456789'' ! n]
      else string_of_nat (n div 10) @ [''0123456789'' ! (n mod 10)])"

declare string_of_nat.simps [simp del]

text \<open>
  \<^verbatim>\<open>x.toFixed(1)\<close> for \<open>x \<ge> 0\<close>: the integer \<open>n\<close> with \<open>n / 10\<close> nearest to \<open>x\<close>, the
  larger one on a tie, printed with one digit behind the point.
\<close>

definition toFixed1 :: "rat \<Rightarrow> string" where
  "toFixed1 x =
     (let n = nat \<lfloor>x * 10 + 1 / 2\<rfloor>
      in string_of_nat (n div 10) @ ''.'' @ string_of_nat (n mod 10))"

definition uploadToGemini :: "AttemptWorld \<Rightarrow> FileData \<Rightarrow> string option + FileMetadata" where
  "uploadToGemini w file =
     (case files_upload w file of
        Inl thrown \<Rightarrow> Inl thrown
      | Inr (u, mt) \<Rightarrow>
          (if u = None \<or> u = Some []
           then Inl (Some ''Gemini File API upload returned invalid metadata (missing URI).'')
           else Inr \<lparr>uri = the u, meta_mimeType = mt\<rparr>))"

definition upload_failed_Error :: "FileData \<Rightarrow> string option \<Rightarrow> JsError" where
  "upload_failed_Error file uploadError =
     new_Error (''File upload failed and file is too large for inline fallback (''
       @ toFixed1 (sizeMB file) @ ''MB). API Error: ''
       @ (case uploadError of Some m \<Rightarrow> m | None \<Rightarrow> ''Unknown Error''))"

text \<open>
  The loop over the files of one attempt: the parts built so far are the accumulator;
  the result is the uploads that were called and either the thrown error or the parts.
\<close>

fun build_parts :: "AttemptWorld \<Rightarrow> FileData list \<Rightarrow> Part list \<Rightarrow> Event list \<times> (JsError + Part list)" where
  "build_parts w [] parts = ([], Inr parts)"
| "build_parts w (file # rest) parts =
     (if sizeMB file > 9 then
        (case uploadToGemini w file of
           Inr fileMetadata \<Rightarrow>
             (let (evs, r) = build_parts w rest
                    (parts @ [PartFileData (meta_mimeType fileMetadata) (uri fileMetadata)])
              in (UploadCall file # evs, r))
         | Inl uploadError \<Rightarrow>
             (if sizeMB file < 18 then
                (let (evs, r) = build_parts w rest
                       (parts @ [PartInlineData (mimeType file) (data file)])
                 in (UploadCall file # evs, r))
              else ([UploadCall file], Inl (upload_failed_Error file uploadError))))
      else build_parts w rest (parts @ [PartInlineData (mimeType file) (data file)]))"

text \<open>\<^verbatim>\<open>if (chunkText) yield chunkText\<close>: an absent or empty text is not yielded.\<close>

definition yielded_texts :: "string option list \<Rightarrow> string list" where
  "yielded_texts chunks = concat (map (\<lambda>c. case c of None \<Rightarrow> [] | Some t \<Rightarrow> if t = [] then [] else [t]) chunks)"

text \<open>The body of the \<^verbatim>\<open>try\<close> block: the events, and the error caught, if any.\<close>

definition run_attempt :: "AttemptWorld \<Rightarrow> string \<Rightarrow> FileData list \<Rightarrow> Event list \<times> JsError option" where
  "run_attempt w msg files =
     (case build_parts w files [] of
        (evs, Inl e) \<Rightarrow> (evs, Some e)
      | (evs, Inr parts) \<Rightarrow>
          (evs @ [Sent (parts @ [PartText msg])] @ map Yielded (yielded_texts (stream_chunks w)),
           stream_error w))"

definition isNetworkError :: "JsError \<Rightarrow> bool" where
  "isNetworkError e =
     (message_includes e ''http status code: 0'' \<or> status e = Some ''UNKNOWN'')"

definition isServerError :: "JsError \<Rightarrow> bool" where
  "isServerError e =
     (message_includes e ''503'' \<or> message_includes e ''500'' \<or> message_includes e ''429'')"

text \<open>The condition under which the \<^verbatim>\<open>catch\<close> block retries, the attempt budget apart.\<close>

definition transient :: "JsError \<Rightarrow> bool" where
  "transient e = (isNetworkError e \<or> isServerError e)"

text \<open>
  The same condition written out on the fields of the error: which messages and which
  status make the handler retry. It is compared with \<open>transient\<close> in the lemma
  \<open>transient_iff\<close>.
\<close>

definition taken_for_transient :: "JsError \<Rightarrow> bool" where
  "taken_for_transient e =
     (status e = Some ''UNKNOWN'' \<or>
      (case message e of
         None \<Rightarrow> False
       | Some m \<Rightarrow> find_sub ''http status code: 0'' m \<noteq> None \<or> find_sub ''503'' m \<noteq> None
                  \<or> find_sub ''500'' m \<noteq> None \<or> find_sub ''429'' m \<noteq> None))"

definition friendlyError :: "JsError \<Rightarrow> string" where
  "friendlyError e =
     (case message e of
        Some m \<Rightarrow>
          if m \<noteq> [] then
            (if js_includes m ''token count exceeds'' 0 then
               ''Token Limit Exceeded: The content is too large. Please start a new chat.''
             else if js_includes m ''Document size exceeds'' 0 then
               ''File Too Large: The document exceeds the API's inline limit. (Upload failed)''
             else if js_includes m ''SAFETY'' 0 then
               ''Safety Filter Triggered: The content was flagged by safety settings.''
             else if js_includes m ''http status code: 0'' 0 then
               ''Network Connection Error: Could not reach Gemini API. Please check your internet connection.''
             else if js_includes m ''413'' 0 then
               ''Payload Too Large: The file is too big for the direct API. Please try compressing it.''
             else if js_includes m ''429'' 0 then
               ''Free Tier Limit Reached: You are sending too many requests too quickly. Please wait a moment.''
             else ''API Error: '' @ m)
          else (case statusText e of
                  Some t \<Rightarrow> if t \<noteq> [] then ''API Error: '' @ t else ''An unexpected error occurred.''
                | None \<Rightarrow> ''An unexpected error occurred.'')
      | None \<Rightarrow>
          (case statusText e of
             Some t \<Rightarrow> if t \<noteq> [] then ''API Error: '' @ t else ''An unexpected error occurred.''
           | None \<Rightarrow> ''An unexpected error occurred.''))"

text \<open>
  The retry loop, from the value \<open>attempt\<close> has at the top of an iteration. The world of
  an iteration is indexed by that value. Leaving the loop by its condition ends the
  generator without an error.
\<close>

function streamLoop :: "(nat \<Rightarrow> AttemptWorld) \<Rightarrow> string \<Rightarrow> FileData list \<Rightarrow> nat \<Rightarrow> Event list \<times> Outcome" where
  "streamLoop world msg files attempt =
     (if attempt < maxAttempts then
        (case run_attempt (world attempt) msg files of
           (evs, None) \<Rightarrow> (evs, Returned)
         | (evs, Some error) \<Rightarrow>
             (if (isNetworkError error \<or> isServerError error) \<and> attempt + 1 < maxAttempts then
                (let (later, outcome) = streamLoop world msg files (attempt + 1)
                 in (evs @ [Delayed (1000 * (attempt + 1))] @ later, outcome))
              else (evs, Thrown (new_Error (friendlyError error)))))
      else ([], Returned))"
  by pat_completeness auto
termination
  by (relation "measure (\<lambda>(world, msg, files, attempt). maxAttempts - attempt)") auto

declare streamLoop.simps [simp del]

definition streamMessage :: "StreamWorld \<Rightarrow> string \<Rightarrow> FileData list \<Rightarrow> Event list \<times> Outcome" where
  "streamMessage world msg files =
     (case chat_init world of
        InitThrows e \<Rightarrow> ([], Thrown e)
      | InitNoSession \<Rightarrow> ([], Thrown (new_Error ''Chat session could not be initialized.''))
      | SessionReady \<Rightarrow> streamLoop (attempt_world world) msg files 0)"

text \<open>The deltas a consumer of the generator receives.\<close>

definition yields :: "Event list \<Rightarrow> string list" where
  "yields evs = concat (map (\<lambda>ev. case ev of Yielded t \<Rightarrow> [t] | _ \<Rightarrow> []) evs)"

definition sends :: "Event list \<Rightarrow> Part list list" where
  "sends evs = concat (map (\<lambda>ev. case ev of Sent ps \<Rightarrow> [ps] | _ \<Rightarrow> []) evs)"

definition delays :: "Event list \<Rightarrow> nat list" where
  "delays evs = concat (map (\<lambda>ev. case ev of Delayed ms \<Rightarrow> [ms] | _ \<Rightarrow> []) evs)"

section \<open>The application state and its handlers (App)\<close>

text \<open>
  The component's state. \<open>abortControllerRef\<close> is \<open>None\<close> for null and \<open>Some b\<close> for a
  controller whose \<^verbatim>\<open>signal.aborted\<close> is \<open>b\<close>; \<open>nextId\<close> is the supply behind
  \<^verbatim>\<open>uuidv4()\<close>.
\<close>

record App =
  files :: "FileData list"
  messages :: "Message list"
  input :: string
  appState :: AppState
  sentFileNames :: "string set"
  currentPlan :: "ExecutionPlan option"
  executionStep :: nat
  abortControllerRef :: "bool option"
  nextId :: nat

text \<open>\<^verbatim>\<open>abortControllerRef.current?.signal.aborted\<close>, as a truth value.\<close>

definition aborted :: "App \<Rightarrow> bool" where
  "aborted app = (abortControllerRef app = Some True)"

definition stopGeneration :: "App \<Rightarrow> App" where
  "stopGeneration app =
     app\<lparr>abortControllerRef := None,
         appState := idle,
         messages :=
           (let prev = messages app in
            if prev = [] then prev
            else (let lastMsg = last prev in
                  if role lastMsg = Model \<and> isStreaming lastMsg
                  then butlast prev @
                         [lastMsg\<lparr>isStreaming := False,
                                   msg_text := msg_text lastMsg @ [CHR 0x0A, CHR 0x0A] @ ''**[Stopped by User]**''\<rparr>]
                  else prev))\<rparr>"

text \<open>
  When things happen while one stream is consumed: the clock at the start, the clock
  when the \<open>k\<close>-th delta is handled, and whether the user presses the stop button while
  the consumer waits for the \<open>k\<close>-th item of the stream (the item behind the last delta
  is the end of the stream).
\<close>

record Schedule =
  startTime :: int
  chunkTime :: "nat \<Rightarrow> int"
  stopBefore :: "nat \<Rightarrow> bool"

definition setText :: "nat \<Rightarrow> string \<Rightarrow> App \<Rightarrow> App" where
  "setText i t app =
     app\<lparr>messages := map (\<lambda>m. if msg_id m = i then m\<lparr>msg_text := t\<rparr> else m) (messages app)\<rparr>"

text \<open>
  The \<^verbatim>\<open>for await\<close> loop of \<^verbatim>\<open>handleSendMessage\<close> and of \<^verbatim>\<open>executePlan\<close>: the two loops
  differ only in the text they write into the message, which is \<open>render\<close> of the response
  so far. The result is the state, the accumulated response and whether the loop was
  left by \<^verbatim>\<open>break\<close>.
\<close>

fun consume_stream :: "Schedule \<Rightarrow> nat \<Rightarrow> (string \<Rightarrow> string) \<Rightarrow> nat \<Rightarrow> string list \<Rightarrow> App \<Rightarrow> string \<Rightarrow> int \<Rightarrow> App \<times> string \<times> bool" where
  "consume_stream sched msgId render k [] app response lastUpdate =
     ((if stopBefore sched k then stopGeneration app else app), response, False)"
| "consume_stream sched msgId render k (chunk # rest) app response lastUpdate =
     (let app1 = (if stopBefore sched k then stopGeneration app else app) in
      if aborted app1 then (app1, response, True)
      else (let response1 = response @ chunk;
                now = chunkTime sched k
            in if now - lastUpdate > 200
               then consume_stream sched msgId render (Suc k) rest
                      (setText msgId (render response1) app1) response1 now
               else consume_stream sched msgId render (Suc k) rest app1 response1 lastUpdate))"

text \<open>
  The text a throttled loop has last written into its message when it ends, from the text
  \<open>shown\<close> the message had before, and the update of one message's text in a transcript.
  Both serve to state what \<open>consume_stream\<close> leaves behind.
\<close>

fun last_shown :: "Schedule \<Rightarrow> (string \<Rightarrow> string) \<Rightarrow> nat \<Rightarrow> string list \<Rightarrow> string \<Rightarrow> int \<Rightarrow> string \<Rightarrow> string" where
  "last_shown sched render k [] response lastUpdate shown = shown"
| "last_shown sched render k (chunk # rest) response lastUpdate shown =
     (if chunkTime sched k - lastUpdate > 200
      then last_shown sched render (Suc k) rest (response @ chunk) (chunkTime sched k)
             (render (response @ chunk))
      else last_shown sched render (Suc k) rest (response @ chunk) lastUpdate shown)"

definition show_in :: "nat \<Rightarrow> (string \<Rightarrow> string) \<Rightarrow> Message list \<Rightarrow> Message list" where
  "show_in i f ms = map (\<lambda>m. if msg_id m = i then m\<lparr>msg_text := f (msg_text m)\<rparr> else m) ms"

text \<open>
  The capture group of the leftmost match of \<^verbatim>\<open>/```json\s*([\s\S]*?)\s*```/\<close>: at the first
  position where the marker stands with a closing fence behind it, the first \<^verbatim>\<open>\s*\<close> takes
  the white space behind the marker and the lazy group ends where only white space is left
  in front of the first closing fence.
\<close>

fun match_json :: "string \<Rightarrow> string option" where
  "match_json [] = None"
| "match_json (c # cs) =
     (case (if prefix ''```json'' (c # cs) then find_sub endMarker (drop 7 (c # cs)) else None) of
        Some k \<Rightarrow> Some (rev (dropWhile is_space (rev (dropWhile is_space (take k (drop 7 (c # cs)))))))
      | None \<Rightarrow> match_json cs)"

text \<open>
  \<^verbatim>\<open>handleSendMessage\<close> up to the point where it starts to wait for the stream: \<open>None\<close>
  when a guard returns early, otherwise the new state, the id of the model's message and
  the files to send.
\<close>

definition handleSendMessage_start :: "string \<Rightarrow> App \<Rightarrow> (App \<times> nat \<times> FileData list) option" where
  "handleSendMessage_start txt app =
     (if list_all is_space txt \<or> appState app = executing then None
      else if files app = [] then None
      else
        (let isSystemPrompt = js_includes txt ''[STRICT VISUAL INSTRUCTION'' 0;
             displayText = (if isSystemPrompt
                            then ''**Generating Custom MCQs...** (Applying visual settings)''
                            else txt);
             userMessage = \<lparr>msg_id = nextId app, role = User, msg_text = displayText,
                            isError = False, isStreaming = False, planData = None\<rparr>;
             aiMsgId = nextId app + 1;
             aiMessage = \<lparr>msg_id = aiMsgId, role = Model, msg_text = [],
                          isError = False, isStreaming = True, planData = None\<rparr>;
             filesToSend = filter (\<lambda>f. name f \<notin> sentFileNames app) (files app)
         in Some (app\<lparr>abortControllerRef := Some False,
                       messages := messages app @ [userMessage, aiMessage],
                       input := [],
                       appState := planning,
                       nextId := nextId app + 2\<rparr>,
                  aiMsgId, filesToSend)))"

text \<open>
  The rest of \<^verbatim>\<open>handleSendMessage\<close>: the stream is consumed, then the reply is finished.
  \<open>jsonParse\<close> stands for \<^verbatim>\<open>JSON.parse\<close> read as a plan (\<open>None\<close>: it throws). The
  \<^verbatim>\<open>finally\<close> block resets the controller on every path.
\<close>

definition handleSendMessage_run :: "(string \<Rightarrow> ExecutionPlan option) \<Rightarrow> StreamWorld \<Rightarrow> Schedule \<Rightarrow> string \<Rightarrow> App \<times> nat \<times> FileData list \<Rightarrow> App" where
  "handleSendMessage_run jsonParse world sched txt started =
     (case started of (app0, aiMsgId, filesToSend) \<Rightarrow>
      (case streamMessage world txt filesToSend of (events, outcome) \<Rightarrow>
       (case consume_stream sched aiMsgId (\<lambda>r. r) 0 (yields events) app0 [] (startTime sched) of
          (app1, fullResponse, broke) \<Rightarrow>
          (case (if broke then Returned else outcome) of
             Thrown error \<Rightarrow>
               app1\<lparr>messages :=
                      map (\<lambda>m. if msg_id m = aiMsgId
                                then m\<lparr>isStreaming := False, isError := True,
                                       msg_text := (case message error of
                                                      Some t \<Rightarrow> if t \<noteq> [] then t else ''Error processing request.''
                                                    | None \<Rightarrow> ''Error processing request.'')\<rparr>
                                else m) (messages app1),
                    appState := idle,
                    abortControllerRef := None\<rparr>
           | Returned \<Rightarrow>
               (let app2 = setText aiMsgId fullResponse app1 in
                if aborted app2 then app2\<lparr>abortControllerRef := None\<rparr>
                else
                  (let app3 = app2\<lparr>sentFileNames := sentFileNames app2 \<union> set (map name filesToSend)\<rparr>
                   in case (case match_json fullResponse of
                              None \<Rightarrow> None
                            | Some captured \<Rightarrow> jsonParse captured) of
                        Some plan \<Rightarrow>
                          app3\<lparr>currentPlan := Some plan,
                               appState := waiting_approval,
                               messages :=
                                 map (\<lambda>m. if msg_id m = aiMsgId
                                           then m\<lparr>isStreaming := False,
                                                  msg_text := replace_fenced ''```json'' fullResponse,
                                                  planData := Some plan\<rparr>
                                           else m) (messages app3),
                               abortControllerRef := None\<rparr>
                      | None \<Rightarrow>
                          app3\<lparr>messages :=
                                 map (\<lambda>m. if msg_id m = aiMsgId then m\<lparr>isStreaming := False\<rparr> else m)
                                   (messages app3),
                               appState := idle,
                               abortControllerRef := None\<rparr>))))))"

definition handleSendMessage :: "(string \<Rightarrow> ExecutionPlan option) \<Rightarrow> StreamWorld \<Rightarrow> Schedule \<Rightarrow> string \<Rightarrow> App \<Rightarrow> App" where
  "handleSendMessage jsonParse world sched txt app =
     (case handleSendMessage_start txt app of
        None \<Rightarrow> app
      | Some started \<Rightarrow> handleSendMessage_run jsonParse world sched txt started)"

text \<open>The stop sign of the error text: its code units lie outside the modelled range, so
  it stands here as the four bytes of its UTF-8 form.\<close>

definition stop_sign :: string where
  "stop_sign = [CHR 0xF0, CHR 0x9F, CHR 0x9B, CHR 0x91]"

definition stepHeader :: "nat \<Rightarrow> string \<Rightarrow> string" where
  "stepHeader i step =
     ''**Step '' @ string_of_nat (i + 1) @ '':** '' @ step @ [CHR 0x0A, CHR 0x0A]"

definition stepPrompt :: "ExecutionPlan \<Rightarrow> nat \<Rightarrow> string \<Rightarrow> string" where
  "stepPrompt plan i step =
     ''[SYSTEM: EXECUTION MODE] Current Plan: '' @ [CHR 0x22] @ title plan @ [CHR 0x22]
       @ ''. '' @ [CHR 0x0A] @ ''TASK: Execute Step '' @ string_of_nat (i + 1) @ '': ''
       @ [CHR 0x22] @ step @ [CHR 0x22] @ ''. '' @ [CHR 0x0A]
       @ ''Output only the content for this step. If it involves visual data, use HTML.''"

text \<open>
  The \<^verbatim>\<open>for\<close> loop of \<^verbatim>\<open>executePlan\<close>, from index \<open>i\<close> with the steps that are left. The
  world and the schedule of a step are indexed by its position in the plan. The second
  component of the result is \<open>True\<close> when the \<^verbatim>\<open>catch\<close> block returned from the function.
\<close>

fun executeSteps :: "(nat \<Rightarrow> StreamWorld) \<Rightarrow> (nat \<Rightarrow> Schedule) \<Rightarrow> ExecutionPlan \<Rightarrow> nat \<Rightarrow> string list \<Rightarrow> App \<Rightarrow> App \<times> bool" where
  "executeSteps worlds scheds plan i [] app = (app, False)"
| "executeSteps worlds scheds plan i (step # rest) app =
     (if aborted app then (app, False)
      else
        (let stepMsgId = nextId app;
             app1 = app\<lparr>executionStep := i + 1,
                        messages := messages app @
                          [\<lparr>msg_id = stepMsgId, role = Model, msg_text = stepHeader i step,
                            isError = False, isStreaming = True, planData = None\<rparr>],
                        nextId := nextId app + 1\<rparr>
         in case streamMessage (worlds i) (stepPrompt plan i step) [] of (events, outcome) \<Rightarrow>
            (case consume_stream (scheds i) stepMsgId (\<lambda>r. stepHeader i step @ r) 0
                    (yields events) app1 [] (startTime (scheds i)) of
               (app2, stepResponse, broke) \<Rightarrow>
               (case (if broke then Returned else outcome) of
                  Thrown error \<Rightarrow>
                    (app2\<lparr>messages :=
                            map (\<lambda>m. if msg_id m = stepMsgId
                                      then m\<lparr>isStreaming := False, isError := True,
                                             msg_text := msg_text m @ [CHR 0x0A, CHR 0x0A] @ stop_sign
                                               @ '' **EXECUTION STOPPED:** ''
                                               @ (case message error of
                                                    Some t \<Rightarrow> if t \<noteq> [] then t else ''Unknown error occurred.''
                                                  | None \<Rightarrow> ''Unknown error occurred.'')\<rparr>
                                      else m) (messages app2),
                          appState := idle,
                          abortControllerRef := None\<rparr>, True)
                | Returned \<Rightarrow>
                    (let app3 = setText stepMsgId (stepHeader i step @ stepResponse) app2 in
                     if aborted app3
                     then (app3\<lparr>messages :=
                                  map (\<lambda>m. if msg_id m = stepMsgId
                                            then m\<lparr>isStreaming := False, msg_text := msg_text m @ '' [Stopped]''\<rparr>
                                            else m) (messages app3)\<rparr>, False)
                     else executeSteps worlds scheds plan (i + 1) rest
                            (app3\<lparr>messages :=
                                    map (\<lambda>m. if msg_id m = stepMsgId then m\<lparr>isStreaming := False\<rparr> else m)
                                      (messages app3)\<rparr>))))))"

definition executePlan :: "(nat \<Rightarrow> StreamWorld) \<Rightarrow> (nat \<Rightarrow> Schedule) \<Rightarrow> App \<Rightarrow> App" where
  "executePlan worlds scheds app =
     (case currentPlan app of
        None \<Rightarrow> app
      | Some plan \<Rightarrow>
          (case executeSteps worlds scheds plan 0 (steps plan)
                  (app\<lparr>appState := executing, executionStep := 1, abortControllerRef := Some False\<rparr>) of
             (app1, returned) \<Rightarrow>
               if returned then app1
               else app1\<lparr>appState := completed, executionStep := 0, currentPlan := None,
                         abortControllerRef := None\<rparr>))"

definition cancelPlan :: "App \<Rightarrow> App" where
  "cancelPlan app =
     app\<lparr>appState := idle,
         currentPlan := None,
         messages := messages app @
           [\<lparr>msg_id = nextId app, role = Model, msg_text = ''Plan cancelled.'',
             isError = False, isStreaming = False, planData = None\<rparr>],
         nextId := nextId app + 1\<rparr>"

text \<open>
  The gates of the rendered controls: the \<^verbatim>\<open>disabled\<close> attribute of the text area (whose
  Enter key calls \<^verbatim>\<open>handleSendMessage(input)\<close>), of the send button and of the quick
  actions, and the condition under which the stop button is rendered in place of the send
  button.
\<close>

definition textarea_disabled :: "App \<Rightarrow> bool" where
  "textarea_disabled app =
     (files app = [] \<or>
      (appState app \<noteq> idle \<and> appState app \<noteq> planning \<and> appState app \<noteq> executing))"

definition stopButton_rendered :: "App \<Rightarrow> bool" where
  "stopButton_rendered app = (appState app \<noteq> idle \<and> appState app \<noteq> waiting_approval)"

definition sendButton_disabled :: "App \<Rightarrow> bool" where
  "sendButton_disabled app =
     (list_all is_space (input app) \<or> files app = [] \<or> appState app \<noteq> idle)"

definition quickAction_disabled :: "App \<Rightarrow> bool" where
  "quickAction_disabled app = (files app = [] \<or> appState app \<noteq> idle)"

section \<open>Transcripts of a plan's steps\<close>

text \<open>
  The messages a run of \<^verbatim>\<open>executePlan\<close> leaves behind, for stating its results. The text
  of a thrown error as the \<^verbatim>\<open>catch\<close> block prints it; the message of a step that ran to
  its end (the header and the whole response); the message of a step whose stream threw
  (the text last shown, then the error line); the state after a run of steps that all ran
  to their end, and their messages.
\<close>

definition errorText :: "JsError \<Rightarrow> string" where
  "errorText e = (case message e of
                    Some t \<Rightarrow> if t \<noteq> [] then t else ''Unknown error occurred.''
                  | None \<Rightarrow> ''Unknown error occurred.'')"

definition step_done :: "(nat \<Rightarrow> StreamWorld) \<Rightarrow> ExecutionPlan \<Rightarrow> nat \<Rightarrow> nat \<Rightarrow> string \<Rightarrow> Message" where
  "step_done worlds plan n i step =
     \<lparr>msg_id = n, role = Model,
      msg_text = stepHeader i step
        @ concat (yields (fst (streamMessage (worlds i) (stepPrompt plan i step) []))),
      isError = False, isStreaming = False, planData = None\<rparr>"

definition step_failed :: "(nat \<Rightarrow> StreamWorld) \<Rightarrow> (nat \<Rightarrow> Schedule) \<Rightarrow> ExecutionPlan \<Rightarrow> nat \<Rightarrow> nat \<Rightarrow> string \<Rightarrow> JsError \<Rightarrow> Message" where
  "step_failed worlds scheds plan n i step e =
     \<lparr>msg_id = n, role = Model,
      msg_text = last_shown (scheds i) (\<lambda>r. stepHeader i step @ r) 0
          (yields (fst (streamMessage (worlds i) (stepPrompt plan i step) []))) []
          (startTime (scheds i)) (stepHeader i step)
        @ [CHR 0x0A, CHR 0x0A] @ stop_sign @ '' **EXECUTION STOPPED:** '' @ errorText e,
      isError = True, isStreaming = False, planData = None\<rparr>"

fun after_steps :: "(nat \<Rightarrow> StreamWorld) \<Rightarrow> ExecutionPlan \<Rightarrow> nat \<Rightarrow> string list \<Rightarrow> App \<Rightarrow> App" where
  "after_steps worlds plan i [] app = app"
| "after_steps worlds plan i (step # rest) app =
     after_steps worlds plan (i + 1) rest
       (app\<lparr>executionStep := i + 1,
            messages := messages app @ [step_done worlds plan (nextId app) i step],
            nextId := nextId app + 1\<rparr>)"

fun done_messages :: "(nat \<Rightarrow> StreamWorld) \<Rightarrow> ExecutionPlan \<Rightarrow> nat \<Rightarrow> nat \<Rightarrow> string list \<Rightarrow> Message list" where
  "done_messages worlds plan n i [] = []"
| "done_messages worlds plan n i (step # rest) =
     step_done worlds plan n i step # done_messages worlds plan (n + 1) (i + 1) rest"

section \<open>Example inputs\<close>

text \<open>
  Worlds, schedules and states for the worked runs below: an upload that succeeds and one
  that is rejected, a file of a given base64 length, a schedule under which nothing is
  throttled into view and nobody presses stop, a service that is overloaded twice before
  it answers, one whose first answer is flagged by the safety filter, one that breaks
  off its first answer with an overload error, and a state in which one exchange is
  under way and every file has been sent before.
\<close>

definition upload_ok :: "FileData \<Rightarrow> string option + (string option \<times> string)" where
  "upload_ok f = Inr (Some ''files/1'', mimeType f)"

definition upload_rejected :: "FileData \<Rightarrow> string option + (string option \<times> string)" where
  "upload_rejected f = Inl (Some ''upload rejected'')"

definition upload_overloaded :: "FileData \<Rightarrow> string option + (string option \<times> string)" where
  "upload_overloaded f = Inl (Some ''got status: 503 UNAVAILABLE'')"

definition pdf_of_length :: "nat \<Rightarrow> FileData" where
  "pdf_of_length n = \<lparr>name = ''a.pdf'', data = replicate n (CHR ''A''), mimeType = ''application/pdf''\<rparr>"

definition quiet :: Schedule where
  "quiet = \<lparr>startTime = 0, chunkTime = (\<lambda>k. 0), stopBefore = (\<lambda>k. False)\<rparr>"



definition interrupted_once :: StreamWorld where
  "interrupted_once =
     \<lparr>chat_init = SessionReady,
      attempt_world = (\<lambda>n. if n < 1
         then \<lparr>files_upload = upload_ok, stream_chunks = [Some ''Dear ''],
               stream_error = Some (new_Error ''got status: 503 UNAVAILABLE'')\<rparr>
         else \<lparr>files_upload = upload_ok, stream_chunks = [Some ''Dear '', Some ''user''],
               stream_error = None\<rparr>)\<rparr>"

text \<open>
  Services for the retry handler: one that rejects every upload, one whose uploads fail
  with an overload error, one that answers every request with the token-limit error, one
  whose first request fails with \<^verbatim>\<open>Failed to fetch\<close>, and one whose first request fails
  with the status \<^verbatim>\<open>UNKNOWN\<close>.
\<close>

definition rejecting_uploads :: StreamWorld where
  "rejecting_uploads =
     \<lparr>chat_init = SessionReady,
      attempt_world = (\<lambda>n. \<lparr>files_upload = upload_rejected, stream_chunks = [Some ''Hello''],
                              stream_error = None\<rparr>)\<rparr>"

definition overloaded_uploads :: StreamWorld where
  "overloaded_uploads =
     \<lparr>chat_init = SessionReady,
      attempt_world = (\<lambda>n. \<lparr>files_upload = upload_overloaded, stream_chunks = [Some ''Hello''],
                              stream_error = None\<rparr>)\<rparr>"




definition waiting_app :: App where
  "waiting_app =
     \<lparr>files = [pdf_of_length 4],
      messages = [\<lparr>msg_id = 0, role = User, msg_text = ''hi'', isError = False,
                   isStreaming = False, planData = None\<rparr>,
                  \<lparr>msg_id = 1, role = Model, msg_text = [], isError = False,
                   isStreaming = True, planData = None\<rparr>],
      input = [],
      appState = planning,
      sentFileNames = {''a.pdf''},
      currentPlan = None,
      executionStep = 0,
      abortControllerRef = Some False,
      nextId = 2\<rparr>"

text \<open>
  More of them: a service that answers \<open>done\<close>, one that fails with an error that is not
  retried, a plan run whose second step fails, a reply in two deltas, a user who presses
  stop after the first delta, an idle state with a file that was sent before, a state with
  an approved three-step plan, a parser that finds no plan, and the state after a second
  send while the first exchange is under way.
\<close>

definition answering :: StreamWorld where
  "answering =
     \<lparr>chat_init = SessionReady,
      attempt_world = (\<lambda>n. \<lparr>files_upload = upload_ok, stream_chunks = [Some ''done''],
                              stream_error = None\<rparr>)\<rparr>"

definition failing :: StreamWorld where
  "failing =
     \<lparr>chat_init = SessionReady,
      attempt_world = (\<lambda>n. \<lparr>files_upload = upload_ok, stream_chunks = [],
                              stream_error = Some (new_Error ''boom'')\<rparr>)\<rparr>"

definition second_step_fails :: "nat \<Rightarrow> StreamWorld" where
  "second_step_fails i = (if i = 1 then failing else answering)"

definition all_answering :: "nat \<Rightarrow> StreamWorld" where
  "all_answering i = answering"

definition two_deltas :: StreamWorld where
  "two_deltas =
     \<lparr>chat_init = SessionReady,
      attempt_world = (\<lambda>n. \<lparr>files_upload = upload_ok,
                              stream_chunks = [Some ''Hello '', Some ''world''],
                              stream_error = None\<rparr>)\<rparr>"

definition stop_after_first :: Schedule where
  "stop_after_first = \<lparr>startTime = 0, chunkTime = (\<lambda>k. 0), stopBefore = (\<lambda>k. k = 1)\<rparr>"

definition stop_in_first_step :: "nat \<Rightarrow> Schedule" where
  "stop_in_first_step i = (if i = 0 then stop_after_first else quiet)"

definition quiet_steps :: "nat \<Rightarrow> Schedule" where
  "quiet_steps i = quiet"

definition no_plan :: "string \<Rightarrow> ExecutionPlan option" where
  "no_plan s = None"

definition ready_app :: App where
  "ready_app =
     \<lparr>files = [pdf_of_length 4], messages = [], input = ''hi'', appState = idle,
      sentFileNames = {''a.pdf''}, currentPlan = None, executionStep = 0,
      abortControllerRef = None, nextId = 0\<rparr>"

definition approved_app :: App where
  "approved_app =
     \<lparr>files = [pdf_of_length 4],
      messages = [\<lparr>msg_id = 0, role = User, msg_text = ''plan it'', isError = False,
                   isStreaming = False, planData = None\<rparr>,
                  \<lparr>msg_id = 1, role = Model, msg_text = ''Here is the plan.'', isError = False,
                   isStreaming = False,
                   planData = Some \<lparr>title = ''T'', steps = [''a'', ''b'', ''c'']\<rparr>\<rparr>],
      input = [], appState = waiting_approval,
      sentFileNames = {''a.pdf''},
      currentPlan = Some \<lparr>title = ''T'', steps = [''a'', ''b'', ''c'']\<rparr>,
      executionStep = 0, abortControllerRef = None, nextId = 2\<rparr>"

definition typing_app :: App where
  "typing_app = waiting_app\<lparr>input := ''again''\<rparr>"

definition double_app :: App where
  "double_app =
     \<lparr>files = [pdf_of_length 4],
      messages = [\<lparr>msg_id = 0, role = User, msg_text = ''hi'', isError = False,
                   isStreaming = False, planData = None\<rparr>,
                  \<lparr>msg_id = 1, role = Model, msg_text = [], isError = False,
                   isStreaming = True, planData = None\<rparr>,
                  \<lparr>msg_id = 2, role = User, msg_text = ''again'', isError = False,
                   isStreaming = False, planData = None\<rparr>,
                  \<lparr>msg_id = 3, role = Model, msg_text = [], isError = False,
                   isStreaming = True, planData = None\<rparr>],
      input = [],
      appState = planning,
      sentFileNames = {''a.pdf''},
      currentPlan = None,
      executionStep = 0,
      abortControllerRef = Some False,
      nextId = 4\<rparr>"

section \<open>Searching in strings\<close>

lemma find_sub_SomeD: "find_sub p s = Some i \<Longrightarrow> prefix p (drop i s) \<and> i \<le> length s"
  by (induction s arbitrary: i) (auto split: if_splits)

lemma find_sub_length: "find_sub p s = Some i \<Longrightarrow> i + length p \<le> length s"
proof -
  assume a: "find_sub p s = Some i"
  then have "prefix p (drop i s)" and "i \<le> length s" using find_sub_SomeD by blast+
  then have "length p \<le> length s - i" using prefix_length_le by fastforce
  with \<open>i \<le> length s\<close> show ?thesis by simp
qed



lemma find_sub_append: "find_sub p s = Some i \<Longrightarrow> find_sub p (s @ d) = Some i"
proof (induction s arbitrary: i)
  case Nil
  then show ?case by (cases d) (simp_all split: if_splits)
next
  case (Cons c cs)
  show ?case
  proof (cases "prefix p (c # cs)")
    case True
    with Cons.prems have "i = 0" by simp
    moreover from True have "prefix p ((c # cs) @ d)" by (rule prefix_prefix)
    ultimately show ?thesis by simp
  next
    case False
    with Cons.prems obtain k where k: "find_sub p cs = Some k" "i = Suc k" by auto
    from find_sub_length[OF k(1)] have len: "length p \<le> length (c # cs)" by simp
    have "\<not> prefix p ((c # cs) @ d)"
    proof
      assume "prefix p ((c # cs) @ d)"
      then have "prefix p (c # cs)" using len
        by (metis prefix_append prefix_length_prefix prefix_order.dual_order.refl prefix_def append_prefixD)
      with False show False ..
    qed
    with Cons.IH[OF k(1)] k show ?thesis by simp
  qed
qed

section \<open>The extractor on a growing text\<close>

lemma extractHtml_tagged_at:
  "find_sub startMarker t = Some i \<Longrightarrow>
   extractHtml_tagged t =
     (case indexOf t endMarker (content_start t i) of
        Some e \<Rightarrow> Some (substring t (content_start t i) e, True)
      | None \<Rightarrow> Some (drop (content_start t i) t, False))"
  by (simp add: extractHtml_tagged_def match_html_open_def content_start_def Let_def
      split: option.splits)

lemma extractHtml_tagged_None: "extractHtml_tagged t = None \<longleftrightarrow> find_sub startMarker t = None"
  by (auto simp: extractHtml_tagged_def match_html_open_def Let_def split: option.splits)

lemma takeWhile_all: "\<forall>x\<in>set r. P x \<Longrightarrow> takeWhile P r = r"
  by (induction r) auto

lemma content_start_le:
  assumes "find_sub startMarker t = Some i"
  shows "content_start t i \<le> length t"
proof -
  from find_sub_length[OF assms] have "i + length startMarker \<le> length t" .
  moreover have "length (takeWhile is_space (drop (i + length startMarker) t))
      \<le> length t - (i + length startMarker)"
    using length_takeWhile_le[of is_space "drop (i + length startMarker) t"] by simp
  ultimately show ?thesis by (simp add: content_start_def)
qed

lemma content_start_all_space:
  assumes "find_sub startMarker t = Some i"
    and "\<forall>x\<in>set (drop (i + length startMarker) t). is_space x"
  shows "content_start t i = length t"
proof -
  from find_sub_length[OF assms(1)] have "i + length startMarker \<le> length t" .
  then show ?thesis
    by (simp add: content_start_def takeWhile_all[OF assms(2)])
qed

lemma content_start_append:
  assumes "find_sub startMarker t = Some i"
    and "\<not> (\<forall>x\<in>set (drop (i + length startMarker) t). is_space x)"
  shows "content_start (t @ d) i = content_start t i"
proof -
  from find_sub_length[OF assms(1)] have "i + length startMarker \<le> length t" .
  then have "drop (i + length startMarker) (t @ d) = drop (i + length startMarker) t @ d"
    by simp
  moreover have "takeWhile is_space (drop (i + length startMarker) t @ d)
      = takeWhile is_space (drop (i + length startMarker) t)"
    using assms(2) by (meson takeWhile_append1)
  ultimately show ?thesis by (simp add: content_start_def)
qed

lemma drop_content_start:
  "drop (content_start t i) t = dropWhile is_space (drop (i + length startMarker) t)"
  by (simp add: content_start_def dropWhile_eq_drop ac_simps)

lemma indexOf_SomeD:
  assumes "indexOf t p s = Some e" and "s \<le> length t"
  obtains k where "find_sub p (drop s t) = Some k" and "e = k + s"
  using assms by (auto simp: indexOf_def min_def split: if_splits)

lemma indexOf_append:
  assumes "indexOf t p s = Some e" and "s \<le> length t"
  shows "indexOf (t @ d) p s = Some e"
proof -
  from assms obtain k where k: "find_sub p (drop s t) = Some k" and e: "e = k + s"
    by (rule indexOf_SomeD)
  from k have "find_sub p (drop s t @ d) = Some k" by (rule find_sub_append)
  then show ?thesis using assms(2) e by (simp add: indexOf_def min_def)
qed

lemma extractHtml_closed_stable:
  assumes "extractHtml_tagged t = Some (c, True)"
  shows "extractHtml_tagged (t @ d) = Some (c, True)"
proof -
  from assms obtain i where i: "find_sub startMarker t = Some i"
    using extractHtml_tagged_None[of t] by (cases "find_sub startMarker t") auto
  define s where "s = content_start t i"
  from assms obtain e where e: "indexOf t endMarker s = Some e" and c: "c = substring t s e"
    by (auto simp: extractHtml_tagged_at[OF i] s_def split: option.splits)
  have sle: "s \<le> length t" unfolding s_def using i by (rule content_start_le)
  from e sle obtain k where k: "find_sub endMarker (drop s t) = Some k" and ek: "e = k + s"
    by (rule indexOf_SomeD)
  from find_sub_length[OF k] have k3: "k + length endMarker \<le> length (drop s t)" .
  then have "drop s t \<noteq> []" by (auto simp: endMarker_def)
  then have ne: "dropWhile is_space (drop (i + length startMarker) t) \<noteq> []"
    by (simp add: s_def drop_content_start)
  then have "\<not> is_space (hd (dropWhile is_space (drop (i + length startMarker) t)))"
    by (rule hd_dropWhile)
  moreover have "hd (dropWhile is_space (drop (i + length startMarker) t))
      \<in> set (drop (i + length startMarker) t)"
    using ne by (meson hd_in_set set_dropWhileD)
  ultimately have "\<not> (\<forall>x\<in>set (drop (i + length startMarker) t). is_space x)" by blast
  then have s': "content_start (t @ d) i = s"
    unfolding s_def using i by (intro content_start_append)
  have i': "find_sub startMarker (t @ d) = Some i" using i by (rule find_sub_append)
  have e': "indexOf (t @ d) endMarker s = Some e" using e sle by (rule indexOf_append)
  have "substring (t @ d) s e = substring t s e"
    using k3 ek sle by (simp add: substring_def min_def max_def)
  with c have c': "c = substring (t @ d) s e" by simp
  show ?thesis
    using e' c' s' by (simp add: extractHtml_tagged_at[OF i'])
qed

lemma extractHtml_open_grows:
  assumes "extractHtml_tagged t = Some (c, False)"
    and "extractHtml_tagged (t @ d) = Some (c', False)"
  shows "prefix c c'"
proof -
  from assms(1) obtain i where i: "find_sub startMarker t = Some i"
    using extractHtml_tagged_None[of t] by (cases "find_sub startMarker t") auto
  from assms(1) have c: "c = drop (content_start t i) t"
    by (auto simp: extractHtml_tagged_at[OF i] split: option.splits)
  have i': "find_sub startMarker (t @ d) = Some i" using i by (rule find_sub_append)
  from assms(2) have c': "c' = drop (content_start (t @ d) i) (t @ d)"
    by (auto simp: extractHtml_tagged_at[OF i'] split: option.splits)
  show ?thesis
  proof (cases "\<forall>x\<in>set (drop (i + length startMarker) t). is_space x")
    case True
    then have "content_start t i = length t" using i by (intro content_start_all_space)
    with c show ?thesis by simp
  next
    case False
    then have "content_start (t @ d) i = content_start t i"
      using i by (intro content_start_append)
    with c c' content_start_le[OF i] show ?thesis by simp
  qed
qed

lemma extractHtml_found_stays:
  assumes "extractHtml_tagged t \<noteq> None"
  shows "extractHtml_tagged (t @ d) \<noteq> None"
proof -
  from assms obtain i where "find_sub startMarker t = Some i"
    using extractHtml_tagged_None[of t] by auto
  then have "find_sub startMarker (t @ d) = Some i" by (rule find_sub_append)
  then show ?thesis using extractHtml_tagged_None[of "t @ d"] by simp
qed


lemma indexOf_from:
  "s \<le> length t \<Longrightarrow> indexOf t p s = map_option (\<lambda>k. k + s) (find_sub p (drop s t))"
  by (simp add: indexOf_def min_def)

lemma substring_from: "substring t s (k + s) = take k (drop s t)"
  by (simp add: substring_def min_def max_def)

lemma extractHtml_tagged_content:
  assumes i: "find_sub startMarker t = Some i"
  shows "extractHtml_tagged t =
           (case find_sub endMarker (dropWhile is_space (drop (i + length startMarker) t)) of
              None \<Rightarrow> Some (dropWhile is_space (drop (i + length startMarker) t), False)
            | Some k \<Rightarrow> Some (take k (dropWhile is_space (drop (i + length startMarker) t)), True))"
proof -
  have le: "content_start t i \<le> length t" using i by (rule content_start_le)
  show ?thesis
    by (simp add: extractHtml_tagged_at[OF i] indexOf_from[OF le] drop_content_start
        substring_from split: option.splits)
qed

lemma extractHtml_tagged_open_content:
  assumes "extractHtml_tagged t = Some (c, False)"
  obtains i where "find_sub startMarker t = Some i"
    and "c = dropWhile is_space (drop (i + length startMarker) t)"
    and "find_sub endMarker c = None"
proof -
  from assms obtain i where i: "find_sub startMarker t = Some i"
    using extractHtml_tagged_None[of t] by (cases "find_sub startMarker t") auto
  from assms have "c = dropWhile is_space (drop (i + length startMarker) t)
      \<and> find_sub endMarker c = None"
    by (auto simp: extractHtml_tagged_content[OF i] split: option.splits)
  with i that show thesis by blast
qed

lemma extractHtml_open_step:
  assumes "extractHtml_tagged t = Some (c, False)"
  shows "extractHtml_tagged (t @ d) =
           (case find_sub endMarker (if c = [] then dropWhile is_space d else c @ d) of
              None \<Rightarrow> Some (if c = [] then dropWhile is_space d else c @ d, False)
            | Some k \<Rightarrow> Some (take k (if c = [] then dropWhile is_space d else c @ d), True))"
proof -
  from assms obtain i where i: "find_sub startMarker t = Some i"
    and c: "c = dropWhile is_space (drop (i + length startMarker) t)"
    by (rule extractHtml_tagged_open_content)
  have i': "find_sub startMarker (t @ d) = Some i" using i by (rule find_sub_append)
  from find_sub_length[OF i] have "i + length startMarker \<le> length t" .
  then have dr: "drop (i + length startMarker) (t @ d) = drop (i + length startMarker) t @ d"
    by simp
  have dw: "dropWhile is_space (drop (i + length startMarker) (t @ d))
      = (if c = [] then dropWhile is_space d else c @ d)"
    unfolding dr c by (simp add: dropWhile_append dropWhile_eq_Nil_conv)
  show ?thesis unfolding extractHtml_tagged_content[OF i'] dw ..
qed

text \<open>
  C1. What the extractor returns: nothing when the text holds no opening marker; otherwise,
  with \<open>i\<close> the index of the first marker, the text behind the marker and the white space
  that follows it, whole and open when that text holds no closing fence, and up to its
  first closing fence and closed when it holds one. A text grows by appends only: \<open>t @ d\<close>
  is any later snapshot of \<open>t\<close>. If the result on \<open>t\<close> is open with content \<open>c\<close>, the
  result on \<open>t @ d\<close> is computed from \<open>c @ d\<close> (from \<open>d\<close> without its leading white space
  while no content has arrived): open with all of it while no closing fence has arrived,
  closed with the part in front of the first closing fence once one has. So while the
  extractor takes its open branch on both snapshots, the earlier content is a prefix of
  the later one; once it takes its closed branch it takes the closed branch on every
  later snapshot, with the same content, so the result changes from open to closed
  once and never back; and a block that was found is found in every later snapshot.
\<close>

theorem extractHtml_growing_text:
  "(find_sub startMarker t = None \<longrightarrow> extractHtml_tagged t = None)
   \<and> (find_sub startMarker t = Some i
        \<and> find_sub endMarker (dropWhile is_space (drop (i + length startMarker) t)) = None
      \<longrightarrow> extractHtml_tagged t
            = Some (dropWhile is_space (drop (i + length startMarker) t), False))
   \<and> (find_sub startMarker t = Some i
        \<and> find_sub endMarker (dropWhile is_space (drop (i + length startMarker) t)) = Some k
      \<longrightarrow> extractHtml_tagged t
            = Some (take k (dropWhile is_space (drop (i + length startMarker) t)), True))
   \<and> (extractHtml_tagged t = Some (c, False) \<longrightarrow>
        extractHtml_tagged (t @ d) =
          (case find_sub endMarker (if c = [] then dropWhile is_space d else c @ d) of
             None \<Rightarrow> Some (if c = [] then dropWhile is_space d else c @ d, False)
           | Some k \<Rightarrow> Some (take k (if c = [] then dropWhile is_space d else c @ d), True)))
   \<and> (extractHtml_tagged t = Some (c, False) \<and> extractHtml_tagged (t @ d) = Some (c', False)
      \<longrightarrow> prefix c c')
   \<and> (extractHtml_tagged t = Some (c, True) \<longrightarrow> extractHtml_tagged (t @ d) = Some (c, True))
   \<and> (extractHtml_tagged t \<noteq> None \<longrightarrow> extractHtml_tagged (t @ d) \<noteq> None)"
proof (intro conjI impI)
  assume "find_sub startMarker t = None"
  then show "extractHtml_tagged t = None" by (simp add: extractHtml_tagged_None)
next
  assume "find_sub startMarker t = Some i
      \<and> find_sub endMarker (dropWhile is_space (drop (i + length startMarker) t)) = None"
  then show "extractHtml_tagged t
      = Some (dropWhile is_space (drop (i + length startMarker) t), False)"
    by (simp add: extractHtml_tagged_content)
next
  assume "find_sub startMarker t = Some i
      \<and> find_sub endMarker (dropWhile is_space (drop (i + length startMarker) t)) = Some k"
  then show "extractHtml_tagged t
      = Some (take k (dropWhile is_space (drop (i + length startMarker) t)), True)"
    by (simp add: extractHtml_tagged_content)
next
  assume "extractHtml_tagged t = Some (c, False)"
  then show "extractHtml_tagged (t @ d) =
      (case find_sub endMarker (if c = [] then dropWhile is_space d else c @ d) of
         None \<Rightarrow> Some (if c = [] then dropWhile is_space d else c @ d, False)
       | Some k \<Rightarrow> Some (take k (if c = [] then dropWhile is_space d else c @ d), True))"
    by (rule extractHtml_open_step)
next
  assume "extractHtml_tagged t = Some (c, False) \<and> extractHtml_tagged (t @ d) = Some (c', False)"
  then show "prefix c c'" using extractHtml_open_grows by blast
next
  assume "extractHtml_tagged t = Some (c, True)"
  then show "extractHtml_tagged (t @ d) = Some (c, True)" by (rule extractHtml_closed_stable)
next
  assume "extractHtml_tagged t \<noteq> None"
  then show "extractHtml_tagged (t @ d) \<noteq> None" by (rule extractHtml_found_stays)
qed

theorem extractHtml_growing_text_witness:
  "extractHtml_tagged ''abc ``'' = None
   \<and> extractHtml_tagged ''abc ```html '' = Some ([], False)
   \<and> extractHtml_tagged ''abc ```html <p>'' = Some (''<p>'', False)
   \<and> extractHtml_tagged (''abc ```html <p>'' @ ''hi``'') = Some (''<p>hi``'', False)
   \<and> prefix ''<p>'' ''<p>hi``''
   \<and> extractHtml_tagged (''abc ```html <p>'' @ ''hi``` x'') = Some (''<p>hi'', True)
   \<and> extractHtml_tagged ((''abc ```html <p>'' @ ''hi``` x'') @ '' ```html again```'')
       = Some (''<p>hi'', True)"
proof -
  let ?t = "''abc ```html <p>''"
  note gt = extractHtml_growing_text
  have n: "find_sub startMarker ''abc ``'' = None" by (simp add: startMarker_def)
  have r0: "extractHtml_tagged ''abc ``'' = None"
    using gt[of "''abc ``''", THEN conjunct1] n by (rule mp)
  have m0: "find_sub startMarker ''abc ```html '' = Some 4" by (simp add: startMarker_def)
  have d0: "dropWhile is_space (drop (4 + length startMarker) ''abc ```html '') = []"
    by (simp add: startMarker_def is_space_def)
  have e0: "find_sub endMarker (dropWhile is_space (drop (4 + length startMarker) ''abc ```html '')) = None"
    unfolding d0 by (simp add: endMarker_def)
  have r1: "extractHtml_tagged ''abc ```html '' = Some ([], False)"
    using gt[of "''abc ```html ''" 4, THEN conjunct2, THEN conjunct1, rule_format, OF conjI, OF m0 e0]
    unfolding d0 .
  have m: "find_sub startMarker ?t = Some 4" by (simp add: startMarker_def)
  have d: "dropWhile is_space (drop (4 + length startMarker) ?t) = ''<p>''"
    by (simp add: startMarker_def is_space_def)
  have e: "find_sub endMarker (dropWhile is_space (drop (4 + length startMarker) ?t)) = None"
    unfolding d by (simp add: endMarker_def)
  have r2: "extractHtml_tagged ?t = Some (''<p>'', False)"
    using gt[of ?t 4, THEN conjunct2, THEN conjunct1, rule_format, OF conjI, OF m e]
    unfolding d .
  note step = gt[THEN conjunct2, THEN conjunct2, THEN conjunct2, THEN conjunct1, rule_format]
  have f1: "find_sub endMarker (''<p>'' @ ''hi``'') = None" by (simp add: endMarker_def)
  have r3: "extractHtml_tagged (?t @ ''hi``'') = Some (''<p>hi``'', False)"
    using step[OF r2, of "''hi``''"] f1 by simp
  have p: "prefix ''<p>'' ''<p>hi``''"
    using gt[THEN conjunct2, THEN conjunct2, THEN conjunct2, THEN conjunct2, THEN conjunct1,
        rule_format, OF conjI, OF r2 r3] .
  have f2: "find_sub endMarker (''<p>'' @ ''hi``` x'') = Some 5" by (simp add: endMarker_def)
  have r4: "extractHtml_tagged (?t @ ''hi``` x'') = Some (''<p>hi'', True)"
    using step[OF r2, of "''hi``` x''"] f2 by simp
  have r5: "extractHtml_tagged ((?t @ ''hi``` x'') @ '' ```html again```'') = Some (''<p>hi'', True)"
    using gt[THEN conjunct2, THEN conjunct2, THEN conjunct2, THEN conjunct2, THEN conjunct2,
        THEN conjunct1, rule_format, OF r4] .
  from r0 r1 r2 r3 p r4 r5 show ?thesis by (intro conjI)
qed

section \<open>Stripping the block from the displayed text\<close>


lemma find_sub_None_prefix_pat:
  "find_sub q s = None \<Longrightarrow> prefix q p \<Longrightarrow> find_sub p s = None"
proof (induction s)
  case Nil
  then show ?case by (auto split: if_splits)
next
  case (Cons c cs)
  then show ?case by (auto split: if_splits dest: prefix_order.trans)
qed

lemma match_fenced_None: "find_sub p s = None \<Longrightarrow> match_fenced p s = None"
proof (induction s)
  case Nil
  then show ?case by simp
next
  case (Cons c cs)
  from Cons.prems have np: "\<not> prefix p (c # cs)" and rest: "find_sub p cs = None"
    by (auto split: if_splits)
  with Cons.IH[OF rest] show ?case by simp
qed














section \<open>Attachments: inline, by reference, or refused\<close>

lemma sizeMB_pdf: "sizeMB (pdf_of_length n) = of_nat n * 3 / 4194304"
  by (simp add: sizeMB_def pdf_of_length_def)

lemma toFixed1_quotient:
  assumes "0 < m"
  shows "toFixed1 (of_nat a / of_nat m)
         = string_of_nat ((20 * a + m) div (2 * m) div 10) @ ''.''
           @ string_of_nat ((20 * a + m) div (2 * m) mod 10)"
proof -
  have "(of_nat a / of_nat m) * 10 + 1 / 2 = (of_nat (20 * a + m) / of_nat (2 * m) :: rat)"
    using assms by (simp add: field_simps)
  then have "\<lfloor>(of_nat a / of_nat m :: rat) * 10 + 1 / 2\<rfloor> = int ((20 * a + m) div (2 * m))"
    by (simp only: floor_divide_of_nat_eq)
  then show ?thesis by (simp add: toFixed1_def Let_def)
qed

lemma toFixed1_sizeMB:
  "toFixed1 (sizeMB file)
   = string_of_nat ((60 * length (data file) + 4194304) div 8388608 div 10) @ ''.''
     @ string_of_nat ((60 * length (data file) + 4194304) div 8388608 mod 10)"
proof -
  have e: "sizeMB file = of_nat (3 * length (data file)) / of_nat 4194304"
    by (simp add: sizeMB_def)
  show ?thesis
    unfolding e using toFixed1_quotient[of 4194304 "3 * length (data file)"] by simp
qed

lemma string_of_nat_digit: "n < 10 \<Longrightarrow> string_of_nat n = [''0123456789'' ! n]"
  by (simp add: string_of_nat.simps)

lemma string_of_nat_25: "string_of_nat 25 = ''25''"
  by code_simp

lemma build_parts_append:
  "build_parts w pre parts0 = (evs0, Inr parts1) \<Longrightarrow>
   build_parts w (pre @ fs) parts0
   = (case build_parts w fs parts1 of (evs, r) \<Rightarrow> (evs0 @ evs, r))"
proof (induction w pre parts0 arbitrary: evs0 rule: build_parts.induct)
  case (1 w parts)
  then show ?case by (simp split: prod.splits)
next
  case (2 w f rest parts)
  show ?case
  proof (cases "sizeMB f > 9")
    case False
    with 2 show ?thesis by simp
  next
    case big: True
    show ?thesis
    proof (cases "uploadToGemini w f")
      case (Inr fileMetadata)
      obtain e1 r1 where b: "build_parts w rest
          (parts @ [PartFileData (meta_mimeType fileMetadata) (uri fileMetadata)]) = (e1, r1)"
        by force
      with "2.prems" big Inr have ev: "evs0 = UploadCall f # e1" and r: "r1 = Inr parts1"
        by simp_all
      from "2.IH"(2)[OF big Inr, of e1] b r
      show ?thesis using big Inr ev by (simp split: prod.splits)
    next
      case (Inl uploadError)
      show ?thesis
      proof (cases "sizeMB f < 18")
        case True
        obtain e1 r1 where b: "build_parts w rest
            (parts @ [PartInlineData (mimeType f) (data f)]) = (e1, r1)"
          by force
        with "2.prems" big Inl True have ev: "evs0 = UploadCall f # e1" and r: "r1 = Inr parts1"
          by simp_all
        from "2.IH"(1)[OF big Inl True, of e1] b r
        show ?thesis using big Inl True ev by (simp split: prod.splits)
      next
        case False
        with "2.prems" big Inl show ?thesis by simp
      qed
    qed
  qed
qed

section \<open>The retry loop\<close>

lemma build_parts_events:
  "sends (fst (build_parts w fs parts)) = []
   \<and> delays (fst (build_parts w fs parts)) = []
   \<and> yields (fst (build_parts w fs parts)) = []"
  by (induction w fs parts rule: build_parts.induct)
     (auto simp: sends_def delays_def yields_def split: sum.splits prod.splits)

lemma sends_append: "sends (a @ b) = sends a @ sends b"
  by (simp add: sends_def)


lemma yields_append: "yields (a @ b) = yields a @ yields b"
  by (simp add: yields_def)



lemma yields_Yielded: "yields (map Yielded ts) = ts"
  by (induction ts) (simp_all add: yields_def)


lemma run_attempt_no_files:
  "run_attempt w msg [] =
     (Sent [PartText msg] # map Yielded (yielded_texts (stream_chunks w)), stream_error w)"
  by (simp add: run_attempt_def)

lemma streamLoop_2:
  "streamLoop w msg fs 2 =
     (case run_attempt (w 2) msg fs of
        (evs, None) \<Rightarrow> (evs, Returned)
      | (evs, Some e) \<Rightarrow> (evs, Thrown (new_Error (friendlyError e))))"
  by (subst streamLoop.simps) (simp add: maxAttempts_def split: prod.splits option.splits)

lemma streamLoop_1:
  "streamLoop w msg fs (Suc 0) =
     (case run_attempt (w (Suc 0)) msg fs of
        (evs, None) \<Rightarrow> (evs, Returned)
      | (evs, Some e) \<Rightarrow>
          if transient e
          then (case streamLoop w msg fs 2 of (later, outcome) \<Rightarrow> (evs @ [Delayed 2000] @ later, outcome))
          else (evs, Thrown (new_Error (friendlyError e))))"
  by (subst streamLoop.simps)
     (simp add: maxAttempts_def transient_def numeral_2_eq_2 split: prod.splits option.splits)

lemma streamLoop_0:
  "streamLoop w msg fs 0 =
     (case run_attempt (w 0) msg fs of
        (evs, None) \<Rightarrow> (evs, Returned)
      | (evs, Some e) \<Rightarrow>
          if transient e
          then (case streamLoop w msg fs (Suc 0) of (later, outcome) \<Rightarrow> (evs @ [Delayed 1000] @ later, outcome))
          else (evs, Thrown (new_Error (friendlyError e))))"
  by (subst streamLoop.simps)
     (simp add: maxAttempts_def transient_def split: prod.splits option.splits)

lemma streamMessage_ready:
  "chat_init world = SessionReady \<Longrightarrow>
   streamMessage world msg fs = streamLoop (attempt_world world) msg fs 0"
  by (simp add: streamMessage_def)


lemma js_includes_find: "js_includes m p 0 = (find_sub p m \<noteq> None)"
  by (simp add: js_includes_def indexOf_def)

lemma transient_iff: "transient e = taken_for_transient e"
  by (auto simp: transient_def isNetworkError_def isServerError_def message_includes_def
      taken_for_transient_def js_includes_find split: option.splits)

lemma streamLoop_first_throws:
  assumes "run_attempt (w 0) msg fs = (evs, Some e)" and "\<not> taken_for_transient e"
  shows "streamLoop w msg fs 0 = (evs, Thrown (new_Error (friendlyError e)))"
  using assms by (simp add: streamLoop_0 transient_iff)

subsection \<open>Every attachment of a request\<close>

text \<open>
  C3, as the specification states it, fails twice. At the threshold itself: a file whose
  estimated size is exactly 9 MB (12582912 base64 characters) is embedded inline, and the
  upload, which would have succeeded, is not called; the test is \<^verbatim>\<open>sizeMB > 9\<close>. And above
  the ceiling: the error thrown for a file of 25 MB whose upload failed carries the text
  of the upload error, here \<^verbatim>\<open>got status: 503 UNAVAILABLE\<close>; the retry handler finds
  \<^verbatim>\<open>503\<close> in it, and the exchange does not fail at once: the file is uploaded three times,
  with the two delays between, before the error is surfaced.
\<close>

theorem attachment_boundary_and_retry:
  "sizeMB (pdf_of_length 12582912) = 9
   \<and> run_attempt \<lparr>files_upload = upload_ok, stream_chunks = [], stream_error = None\<rparr> ''hi''
        [pdf_of_length 12582912]
       = ([Sent [PartInlineData ''application/pdf'' (replicate 12582912 (CHR ''A'')), PartText ''hi'']], None)
   \<and> sizeMB (pdf_of_length 34952534) > 18
   \<and> streamMessage overloaded_uploads ''hi'' [pdf_of_length 34952534]
       = ([UploadCall (pdf_of_length 34952534), Delayed 1000,
           UploadCall (pdf_of_length 34952534), Delayed 2000,
           UploadCall (pdf_of_length 34952534)],
          Thrown (new_Error ''API Error: File upload failed and file is too large for inline fallback (25.0MB). API Error: got status: 503 UNAVAILABLE''))"
proof -
  let ?f = "pdf_of_length 34952534"
  let ?e = "new_Error ''File upload failed and file is too large for inline fallback (25.0MB). API Error: got status: 503 UNAVAILABLE''"
  have nine: "sizeMB (pdf_of_length 12582912) = 9
   \<and> run_attempt \<lparr>files_upload = upload_ok, stream_chunks = [], stream_error = None\<rparr> ''hi''
        [pdf_of_length 12582912]
       = ([Sent [PartInlineData ''application/pdf'' (replicate 12582912 (CHR ''A'')), PartText ''hi'']], None)"
    by (simp add: sizeMB_pdf run_attempt_def yielded_texts_def) (simp add: pdf_of_length_def)
  have big: "sizeMB ?f > 18" by (simp add: sizeMB_pdf)
  have e: "upload_failed_Error ?f (Some ''got status: 503 UNAVAILABLE'') = ?e"
    by (simp add: upload_failed_Error_def toFixed1_sizeMB pdf_of_length_def
        string_of_nat_25 string_of_nat_digit)
  have t: "transient ?e" by code_simp
  have fr: "friendlyError ?e = ''API Error: File upload failed and file is too large for inline fallback (25.0MB). API Error: got status: 503 UNAVAILABLE''"
    by code_simp
  have w: "attempt_world overloaded_uploads n
      = \<lparr>files_upload = upload_overloaded, stream_chunks = [Some ''Hello''], stream_error = None\<rparr>" for n
    by (simp add: overloaded_uploads_def)
  have up: "uploadToGemini (attempt_world overloaded_uploads n) ?f
      = Inl (Some ''got status: 503 UNAVAILABLE'')" for n
    by (simp add: w uploadToGemini_def upload_overloaded_def)
  have r: "run_attempt (attempt_world overloaded_uploads n) ''hi'' [?f] = ([UploadCall ?f], Some ?e)" for n
    using big up[of n] e by (simp add: run_attempt_def)
  have l2: "streamLoop (attempt_world overloaded_uploads) ''hi'' [?f] 2
      = ([UploadCall ?f], Thrown (new_Error (friendlyError ?e)))"
    by (simp add: streamLoop_2 r)
  have l1: "streamLoop (attempt_world overloaded_uploads) ''hi'' [?f] (Suc 0)
      = ([UploadCall ?f, Delayed 2000, UploadCall ?f], Thrown (new_Error (friendlyError ?e)))"
    by (simp add: streamLoop_1 r t l2)
  have l0: "streamLoop (attempt_world overloaded_uploads) ''hi'' [?f] 0
      = ([UploadCall ?f, Delayed 1000, UploadCall ?f, Delayed 2000, UploadCall ?f],
         Thrown (new_Error (friendlyError ?e)))"
    by (simp add: streamLoop_0 r t l1)
  have ready: "chat_init overloaded_uploads = SessionReady" by (simp add: overloaded_uploads_def)
  have s: "streamMessage overloaded_uploads ''hi'' [?f]
      = ([UploadCall ?f, Delayed 1000, UploadCall ?f, Delayed 2000, UploadCall ?f],
         Thrown (new_Error ''API Error: File upload failed and file is too large for inline fallback (25.0MB). API Error: got status: 503 UNAVAILABLE''))"
    unfolding streamMessage_ready[OF ready] l0 fr ..
  from nine big s show ?thesis by (intro conjI) (simp_all only:)
qed

text \<open>
  C3, amended. For every attachment of a request, wherever it stands among the
  attachments, the earlier ones having been resolved without an error: a file of at most
  9 MB becomes an inline part and no upload is called for it. A file above 9 MB is
  uploaded; when the upload succeeds the part is a reference to the returned URI; when it
  fails and the file is below 18 MB the part is inline after all; when it fails and the
  file is 18 MB or more, the attempt throws the upload-failed error: no inline part is
  built, the files behind it are not looked at and no request is sent in that attempt;
  and if the retry handler does not take that error (whose message holds the size and the
  text of the upload error) for a transient one, the exchange fails at once, in its first
  attempt, with the user-facing form of that error.
\<close>

theorem attachment_resolution:
  assumes earlier: "build_parts w pre [] = (evs0, Inr parts)"
  shows
  "(sizeMB file \<le> 9 \<longrightarrow>
      build_parts w (pre @ file # rest) []
        = (case build_parts w rest (parts @ [PartInlineData (mimeType file) (data file)]) of
             (evs, r) \<Rightarrow> (evs0 @ evs, r)))
   \<and> (sizeMB file > 9 \<and> uploadToGemini w file = Inr fileMetadata \<longrightarrow>
      build_parts w (pre @ file # rest) []
        = (case build_parts w rest
                  (parts @ [PartFileData (meta_mimeType fileMetadata) (uri fileMetadata)]) of
             (evs, r) \<Rightarrow> (evs0 @ UploadCall file # evs, r)))
   \<and> (sizeMB file > 9 \<and> sizeMB file < 18 \<and> uploadToGemini w file = Inl uploadError \<longrightarrow>
      build_parts w (pre @ file # rest) []
        = (case build_parts w rest (parts @ [PartInlineData (mimeType file) (data file)]) of
             (evs, r) \<Rightarrow> (evs0 @ UploadCall file # evs, r)))
   \<and> (sizeMB file \<ge> 18 \<and> uploadToGemini w file = Inl uploadError \<longrightarrow>
      build_parts w (pre @ file # rest) []
        = (evs0 @ [UploadCall file], Inl (upload_failed_Error file uploadError))
      \<and> run_attempt w msg (pre @ file # rest)
        = (evs0 @ [UploadCall file], Some (upload_failed_Error file uploadError))
      \<and> sends (fst (run_attempt w msg (pre @ file # rest))) = []
      \<and> (chat_init world = SessionReady \<and> attempt_world world 0 = w
           \<and> \<not> taken_for_transient (upload_failed_Error file uploadError) \<longrightarrow>
          streamMessage world msg (pre @ file # rest)
            = (evs0 @ [UploadCall file],
               Thrown (new_Error (friendlyError (upload_failed_Error file uploadError))))))"
proof -
  note ap = build_parts_append[OF earlier, of "file # rest"]
  from build_parts_events[of w pre "[]"] earlier have s0: "sends evs0 = []" by simp
  have su: "sends (evs0 @ [UploadCall file]) = []"
    using s0 by (simp add: sends_append) (simp add: sends_def)
  have small: "sizeMB file \<le> 9 \<longrightarrow>
      build_parts w (pre @ file # rest) []
        = (case build_parts w rest (parts @ [PartInlineData (mimeType file) (data file)]) of
             (evs, r) \<Rightarrow> (evs0 @ evs, r))"
    using ap by simp
  have ok: "sizeMB file > 9 \<and> uploadToGemini w file = Inr fileMetadata \<longrightarrow>
      build_parts w (pre @ file # rest) []
        = (case build_parts w rest
                  (parts @ [PartFileData (meta_mimeType fileMetadata) (uri fileMetadata)]) of
             (evs, r) \<Rightarrow> (evs0 @ UploadCall file # evs, r))"
    using ap by (simp split: prod.splits)
  have fallback: "sizeMB file > 9 \<and> sizeMB file < 18 \<and> uploadToGemini w file = Inl uploadError \<longrightarrow>
      build_parts w (pre @ file # rest) []
        = (case build_parts w rest (parts @ [PartInlineData (mimeType file) (data file)]) of
             (evs, r) \<Rightarrow> (evs0 @ UploadCall file # evs, r))"
    using ap by (simp split: prod.splits)
  have refused: "sizeMB file \<ge> 18 \<and> uploadToGemini w file = Inl uploadError \<longrightarrow>
      build_parts w (pre @ file # rest) []
        = (evs0 @ [UploadCall file], Inl (upload_failed_Error file uploadError))
      \<and> run_attempt w msg (pre @ file # rest)
        = (evs0 @ [UploadCall file], Some (upload_failed_Error file uploadError))
      \<and> sends (fst (run_attempt w msg (pre @ file # rest))) = []
      \<and> (chat_init world = SessionReady \<and> attempt_world world 0 = w
           \<and> \<not> taken_for_transient (upload_failed_Error file uploadError) \<longrightarrow>
          streamMessage world msg (pre @ file # rest)
            = (evs0 @ [UploadCall file],
               Thrown (new_Error (friendlyError (upload_failed_Error file uploadError)))))"
  proof (intro impI)
    assume h: "sizeMB file \<ge> 18 \<and> uploadToGemini w file = Inl uploadError"
    then have b: "build_parts w (pre @ file # rest) []
        = (evs0 @ [UploadCall file], Inl (upload_failed_Error file uploadError))"
      using ap by simp
    then have r: "run_attempt w msg (pre @ file # rest)
        = (evs0 @ [UploadCall file], Some (upload_failed_Error file uploadError))"
      by (simp add: run_attempt_def)
    have "streamMessage world msg (pre @ file # rest)
            = (evs0 @ [UploadCall file],
               Thrown (new_Error (friendlyError (upload_failed_Error file uploadError))))"
      if "chat_init world = SessionReady" "attempt_world world 0 = w"
        "\<not> taken_for_transient (upload_failed_Error file uploadError)"
      using that r streamLoop_first_throws[of "attempt_world world" msg "pre @ file # rest"]
      by (simp add: streamMessage_ready)
    with b r su show "build_parts w (pre @ file # rest) []
        = (evs0 @ [UploadCall file], Inl (upload_failed_Error file uploadError))
      \<and> run_attempt w msg (pre @ file # rest)
        = (evs0 @ [UploadCall file], Some (upload_failed_Error file uploadError))
      \<and> sends (fst (run_attempt w msg (pre @ file # rest))) = []
      \<and> (chat_init world = SessionReady \<and> attempt_world world 0 = w
           \<and> \<not> taken_for_transient (upload_failed_Error file uploadError) \<longrightarrow>
          streamMessage world msg (pre @ file # rest)
            = (evs0 @ [UploadCall file],
               Thrown (new_Error (friendlyError (upload_failed_Error file uploadError)))))"
      by simp
  qed
  from small ok fallback refused show ?thesis by (intro conjI)
qed

theorem attachment_resolution_witness:
  "sizeMB (pdf_of_length 11884200) < 9
   \<and> build_parts \<lparr>files_upload = upload_ok, stream_chunks = [], stream_error = None\<rparr>
         [pdf_of_length 11884200] []
       = ([], Inr [PartInlineData ''application/pdf'' (data (pdf_of_length 11884200))])
   \<and> sizeMB (pdf_of_length 13981014) > 9
   \<and> build_parts \<lparr>files_upload = upload_ok, stream_chunks = [], stream_error = None\<rparr>
         [pdf_of_length 13981014] []
       = ([UploadCall (pdf_of_length 13981014)], Inr [PartFileData ''application/pdf'' ''files/1''])
   \<and> sizeMB (pdf_of_length 20971520) = 15
   \<and> build_parts \<lparr>files_upload = upload_rejected, stream_chunks = [], stream_error = None\<rparr>
         [pdf_of_length 20971520] []
       = ([UploadCall (pdf_of_length 20971520)],
          Inr [PartInlineData ''application/pdf'' (data (pdf_of_length 20971520))])
   \<and> sizeMB (pdf_of_length 34952534) > 25
   \<and> build_parts \<lparr>files_upload = upload_rejected, stream_chunks = [], stream_error = None\<rparr>
         [pdf_of_length 11884200, pdf_of_length 20971520, pdf_of_length 34952534, pdf_of_length 4] []
       = ([UploadCall (pdf_of_length 20971520), UploadCall (pdf_of_length 34952534)],
          Inl (new_Error ''File upload failed and file is too large for inline fallback (25.0MB). API Error: upload rejected''))
   \<and> \<not> taken_for_transient (new_Error ''File upload failed and file is too large for inline fallback (25.0MB). API Error: upload rejected'')
   \<and> streamMessage rejecting_uploads ''hi''
         [pdf_of_length 11884200, pdf_of_length 20971520, pdf_of_length 34952534, pdf_of_length 4]
       = ([UploadCall (pdf_of_length 20971520), UploadCall (pdf_of_length 34952534)],
          Thrown (new_Error ''API Error: File upload failed and file is too large for inline fallback (25.0MB). API Error: upload rejected''))"
proof -
  let ?ok = "\<lparr>files_upload = upload_ok, stream_chunks = [], stream_error = None\<rparr>"
  let ?no = "\<lparr>files_upload = upload_rejected, stream_chunks = [], stream_error = None\<rparr>"
  let ?rj = "\<lparr>files_upload = upload_rejected, stream_chunks = [Some ''Hello''], stream_error = None\<rparr>"
  let ?a = "pdf_of_length 11884200"
  let ?b = "pdf_of_length 20971520"
  let ?c = "pdf_of_length 34952534"
  let ?d = "pdf_of_length 4"
  let ?e = "new_Error ''File upload failed and file is too large for inline fallback (25.0MB). API Error: upload rejected''"
  note ar = attachment_resolution
  have m: "mimeType (pdf_of_length n) = ''application/pdf''" for n
    by (simp add: pdf_of_length_def)
  have nil: "build_parts w [] [] = ([], Inr [])" for w by simp
  have up_ok: "uploadToGemini ?ok (pdf_of_length n)
      = Inr \<lparr>uri = ''files/1'', meta_mimeType = ''application/pdf''\<rparr>" for n
    by (simp add: uploadToGemini_def upload_ok_def pdf_of_length_def)
  have up_no: "uploadToGemini ?no (pdf_of_length n) = Inl (Some ''upload rejected'')" for n
    by (simp add: uploadToGemini_def upload_rejected_def)
  have up_rj: "uploadToGemini ?rj (pdf_of_length n) = Inl (Some ''upload rejected'')" for n
    by (simp add: uploadToGemini_def upload_rejected_def)
  have s1: "sizeMB ?a < 9" by (simp add: sizeMB_pdf)
  have s2: "sizeMB (pdf_of_length 13981014) > 9" by (simp add: sizeMB_pdf)
  have s3: "sizeMB ?b = 15" by (simp add: sizeMB_pdf)
  have s4: "sizeMB ?c > 25" by (simp add: sizeMB_pdf)
  have e: "upload_failed_Error ?c (Some ''upload rejected'') = ?e"
    by (simp add: upload_failed_Error_def toFixed1_sizeMB pdf_of_length_def
        string_of_nat_25 string_of_nat_digit)
  have nt: "\<not> taken_for_transient ?e" by code_simp
  have fr: "friendlyError ?e = ''API Error: File upload failed and file is too large for inline fallback (25.0MB). API Error: upload rejected''"
    by code_simp
  have r1: "build_parts ?ok [?a] []
      = ([], Inr [PartInlineData ''application/pdf'' (data ?a)])"
    using ar[OF nil, of ?a ?ok "[]"] s1 m by simp
  have r2: "build_parts ?ok [pdf_of_length 13981014] []
      = ([UploadCall (pdf_of_length 13981014)], Inr [PartFileData ''application/pdf'' ''files/1''])"
    using ar[OF nil, of "pdf_of_length 13981014" ?ok "[]"
        "\<lparr>uri = ''files/1'', meta_mimeType = ''application/pdf''\<rparr>"] s2 up_ok
    by simp
  have r3: "build_parts ?no [?b] []
      = ([UploadCall ?b], Inr [PartInlineData ''application/pdf'' (data ?b)])"
    using ar[OF nil, of ?b ?no "[]" _ "Some ''upload rejected''"] s3 up_no m by simp
  have p1: "build_parts ?no [?a] [] = ([], Inr [PartInlineData ''application/pdf'' (data ?a)])"
    using ar[OF nil, of ?a ?no "[]"] s1 m by simp
  have p2: "build_parts ?no ([?a] @ [?b]) []
      = ([UploadCall ?b], Inr [PartInlineData ''application/pdf'' (data ?a),
                                PartInlineData ''application/pdf'' (data ?b)])"
    using ar[OF p1, of ?b "[]" _ "Some ''upload rejected''"] s3 up_no m
    by (simp del: build_parts.simps(2))
  have p2': "build_parts ?no [?a, ?b] []
      = ([UploadCall ?b], Inr [PartInlineData ''application/pdf'' (data ?a),
                                PartInlineData ''application/pdf'' (data ?b)])"
    using p2 by (simp only: append.simps)
  have r4: "build_parts ?no ([?a, ?b] @ ?c # [?d]) []
      = ([UploadCall ?b] @ [UploadCall ?c], Inl (upload_failed_Error ?c (Some ''upload rejected'')))"
    using ar[OF p2', of ?c "[?d]" _ "Some ''upload rejected''"] s4 up_no
    by (simp del: build_parts.simps(2))
  have q1: "build_parts ?rj [?a] [] = ([], Inr [PartInlineData ''application/pdf'' (data ?a)])"
    using ar[OF nil, of ?a ?rj "[]"] s1 m by simp
  have q2: "build_parts ?rj ([?a] @ [?b]) []
      = ([UploadCall ?b], Inr [PartInlineData ''application/pdf'' (data ?a),
                                PartInlineData ''application/pdf'' (data ?b)])"
    using ar[OF q1, of ?b "[]" _ "Some ''upload rejected''"] s3 up_rj m
    by (simp del: build_parts.simps(2))
  have q2': "build_parts ?rj [?a, ?b] []
      = ([UploadCall ?b], Inr [PartInlineData ''application/pdf'' (data ?a),
                                PartInlineData ''application/pdf'' (data ?b)])"
    using q2 by (simp only: append.simps)
  have ready: "chat_init rejecting_uploads = SessionReady \<and> attempt_world rejecting_uploads 0 = ?rj"
    by (simp add: rejecting_uploads_def)
  have r5: "streamMessage rejecting_uploads ''hi'' ([?a, ?b] @ ?c # [?d])
      = ([UploadCall ?b] @ [UploadCall ?c],
         Thrown (new_Error (friendlyError (upload_failed_Error ?c (Some ''upload rejected'')))))"
    using ar[OF q2', of ?c "[?d]" _ "Some ''upload rejected''" "''hi''" rejecting_uploads]
      s4 up_rj ready nt e by (simp del: build_parts.simps(2))
  from s1 s2 s3 s4 r1 r2 r3 r4 r5 e nt fr show ?thesis by (simp del: build_parts.simps(2))
qed

subsection \<open>Which errors are retried\<close>




section \<open>The consumer of the stream\<close>

lemma show_in_show_in_const:
  "show_in i f (map (\<lambda>m. if msg_id m = i then m\<lparr>msg_text := t\<rparr> else m) ms)
   = show_in i (\<lambda>_. f t) ms"
  by (induction ms) (simp_all add: show_in_def)

lemma consume_stream_no_stop:
  assumes "\<forall>k. \<not> stopBefore sched k" and "\<not> aborted app"
  shows "consume_stream sched i render k chunks app response lu =
          (app\<lparr>messages := show_in i (last_shown sched render k chunks response lu) (messages app)\<rparr>,
           response @ concat chunks, False)"
  using assms(2)
proof (induction chunks arbitrary: k app response lu)
  case Nil
  have "show_in i (\<lambda>shown. shown) (messages app) = messages app"
    by (induction "messages app") (simp_all add: show_in_def map_idI)
  moreover have "last_shown sched render k [] response lu = (\<lambda>shown. shown)" by (rule ext) simp
  ultimately show ?case using assms(1) by simp
next
  case (Cons chunk rest)
  show ?case
  proof (cases "chunkTime sched k - lu > 200")
    case True
    let ?app = "setText i (render (response @ chunk)) app"
    have na: "\<not> aborted ?app" using Cons.prems by (simp add: aborted_def setText_def)
    have sh: "show_in i (last_shown sched render (Suc k) rest (response @ chunk) (chunkTime sched k))
            (messages ?app)
          = show_in i (last_shown sched render k (chunk # rest) response lu) (messages app)"
      using True by (simp add: setText_def show_in_show_in_const) (simp add: show_in_def)
    have "consume_stream sched i render k (chunk # rest) app response lu
        = consume_stream sched i render (Suc k) rest ?app (response @ chunk) (chunkTime sched k)"
      using True Cons.prems assms(1) by (simp add: Let_def)
    also have "\<dots> = (?app\<lparr>messages := show_in i
          (last_shown sched render (Suc k) rest (response @ chunk) (chunkTime sched k))
          (messages ?app)\<rparr>, (response @ chunk) @ concat rest, False)"
      by (rule Cons.IH[OF na])
    also have "\<dots> = (app\<lparr>messages := show_in i
          (last_shown sched render k (chunk # rest) response lu) (messages app)\<rparr>,
          response @ concat (chunk # rest), False)"
      unfolding sh by (simp add: setText_def)
    finally show ?thesis .
  next
    case False
    then have "last_shown sched render k (chunk # rest) response lu
        = last_shown sched render (Suc k) rest (response @ chunk) lu"
      by (intro ext) simp
    then show ?thesis
      using False Cons.prems assms(1) Cons.IH[OF Cons.prems]
      by (simp add: Let_def)
  qed
qed

lemma last_shown_cases:
  "last_shown sched render k chunks response lu shown = shown
   \<or> (\<exists>n. 0 < n \<and> n \<le> length chunks
        \<and> last_shown sched render k chunks response lu shown = render (response @ concat (take n chunks)))"
proof (induction chunks arbitrary: k response lu shown)
  case Nil
  then show ?case by simp
next
  case (Cons chunk rest)
  show ?case
  proof (cases "chunkTime sched k - lu > 200")
    case True
    from Cons.IH[of "Suc k" "response @ chunk" "chunkTime sched k" "render (response @ chunk)"]
    show ?thesis
    proof
      assume "last_shown sched render (Suc k) rest (response @ chunk) (chunkTime sched k)
                (render (response @ chunk)) = render (response @ chunk)"
      with True have "last_shown sched render k (chunk # rest) response lu shown
          = render (response @ concat (take 1 (chunk # rest)))" by simp
      then show ?thesis by (intro disjI2 exI[of _ 1]) simp
    next
      assume "\<exists>n. 0 < n \<and> n \<le> length rest
          \<and> last_shown sched render (Suc k) rest (response @ chunk) (chunkTime sched k)
               (render (response @ chunk)) = render ((response @ chunk) @ concat (take n rest))"
      then obtain n where "0 < n" "n \<le> length rest"
        "last_shown sched render (Suc k) rest (response @ chunk) (chunkTime sched k)
               (render (response @ chunk)) = render ((response @ chunk) @ concat (take n rest))"
        by blast
      with True have "last_shown sched render k (chunk # rest) response lu shown
          = render (response @ concat (take (Suc n) (chunk # rest)))" by simp
      with \<open>n \<le> length rest\<close> show ?thesis by (intro disjI2 exI[of _ "Suc n"]) simp
    qed
  next
    case False
    from Cons.IH[of "Suc k" "response @ chunk" lu shown]
    show ?thesis
    proof
      assume "last_shown sched render (Suc k) rest (response @ chunk) lu shown = shown"
      with False show ?thesis by simp
    next
      assume "\<exists>n. 0 < n \<and> n \<le> length rest
          \<and> last_shown sched render (Suc k) rest (response @ chunk) lu shown
              = render ((response @ chunk) @ concat (take n rest))"
      then obtain n where "0 < n" "n \<le> length rest"
        "last_shown sched render (Suc k) rest (response @ chunk) lu shown
              = render ((response @ chunk) @ concat (take n rest))"
        by blast
      with False have "last_shown sched render k (chunk # rest) response lu shown
          = render (response @ concat (take (Suc n) (chunk # rest)))" by simp
      with \<open>n \<le> length rest\<close> show ?thesis by (intro disjI2 exI[of _ "Suc n"]) simp
    qed
  qed
qed

lemma setText_show_in:
  "map (\<lambda>m. if msg_id m = i then m\<lparr>msg_text := t\<rparr> else m) (show_in i f ms)
   = map (\<lambda>m. if msg_id m = i then m\<lparr>msg_text := t\<rparr> else m) ms"
  by (induction ms) (simp_all add: show_in_def)

lemma handleSendMessage_run_returned:
  assumes stream: "streamMessage world txt fs = (events, Returned)"
    and nostop: "\<forall>k. \<not> stopBefore sched k"
    and live: "\<not> aborted app0"
    and noplan: "match_json (concat (yields events)) = None"
  shows "handleSendMessage_run jsonParse world sched txt (app0, aiMsgId, fs)
         = app0\<lparr>messages :=
                  map (\<lambda>m. if msg_id m = aiMsgId
                            then m\<lparr>msg_text := concat (yields events), isStreaming := False\<rparr>
                            else m) (messages app0),
                sentFileNames := sentFileNames app0 \<union> set (map name fs),
                appState := idle,
                abortControllerRef := None\<rparr>"
proof -
  have c: "consume_stream sched aiMsgId (\<lambda>r. r) 0 (yields events) app0 [] (startTime sched)
      = (app0\<lparr>messages := show_in aiMsgId
            (last_shown sched (\<lambda>r. r) 0 (yields events) [] (startTime sched)) (messages app0)\<rparr>,
         concat (yields events), False)"
    using consume_stream_no_stop[OF nostop live, of aiMsgId "\<lambda>r. r" 0 "yields events" "[]"]
    by simp
  have m: "map (\<lambda>m. if msg_id m = aiMsgId then m\<lparr>isStreaming := False\<rparr> else m)
             (map (\<lambda>m. if msg_id m = aiMsgId then m\<lparr>msg_text := t\<rparr> else m) ms)
           = map (\<lambda>m. if msg_id m = aiMsgId then m\<lparr>msg_text := t, isStreaming := False\<rparr> else m) ms"
    for t ms
    by (induction ms) simp_all
  show ?thesis
    using live noplan
    by (simp add: handleSendMessage_run_def stream c setText_def setText_show_in aborted_def m)
qed

text \<open>
  C10. The first attempt yields some deltas and then fails with a transient error, the
  second attempt succeeds. The generator yields the deltas of the first attempt and then
  all deltas of the second; the caller, undisturbed by a stop and with no plan in the
  reply, ends with the concatenation of both in the message of the exchange: the partial
  reply followed by the whole reply sent again.
\<close>

theorem retry_resends_after_partial_stream:
  assumes ready: "chat_init world = SessionReady"
    and first: "run_attempt (attempt_world world 0) txt fs = (ev0, Some e0)"
    and again: "transient e0"
    and second: "run_attempt (attempt_world world 1) txt fs = (ev1, None)"
    and nostop: "\<forall>k. \<not> stopBefore sched k"
    and live: "\<not> aborted app0"
    and noplan: "match_json (concat (yields ev0) @ concat (yields ev1)) = None"
  shows "streamMessage world txt fs = (ev0 @ [Delayed 1000] @ ev1, Returned)
       \<and> yields (fst (streamMessage world txt fs)) = yields ev0 @ yields ev1
       \<and> messages (handleSendMessage_run jsonParse world sched txt (app0, aiMsgId, fs))
           = map (\<lambda>m. if msg_id m = aiMsgId
                       then m\<lparr>msg_text := concat (yields ev0) @ concat (yields ev1),
                              isStreaming := False\<rparr>
                       else m) (messages app0)"
proof -
  have s: "streamMessage world txt fs = (ev0 @ [Delayed 1000] @ ev1, Returned)"
    using first again second
    by (simp add: streamMessage_ready[OF ready] streamLoop_0 streamLoop_1)
  have y: "yields (ev0 @ [Delayed 1000] @ ev1) = yields ev0 @ yields ev1"
    by (simp add: yields_append) (simp add: yields_def)
  from noplan have np: "match_json (concat (yields (ev0 @ [Delayed 1000] @ ev1))) = None"
    unfolding y by simp
  from handleSendMessage_run_returned[OF s nostop live np, of jsonParse aiMsgId]
  show ?thesis unfolding s fst_conv y by simp
qed

theorem retry_resends_after_partial_stream_witness:
  "streamMessage interrupted_once ''hi'' []
     = ([Sent [PartText ''hi''], Yielded ''Dear '', Delayed 1000,
         Sent [PartText ''hi''], Yielded ''Dear '', Yielded ''user''], Returned)
   \<and> messages (handleSendMessage_run (\<lambda>s. None) interrupted_once quiet ''hi'' (waiting_app, 1, []))
     = [\<lparr>msg_id = 0, role = User, msg_text = ''hi'', isError = False,
          isStreaming = False, planData = None\<rparr>,
        \<lparr>msg_id = 1, role = Model, msg_text = ''Dear Dear user'', isError = False,
          isStreaming = False, planData = None\<rparr>]"
proof -
  let ?e = "new_Error ''got status: 503 UNAVAILABLE''"
  have ready: "chat_init interrupted_once = SessionReady" by (simp add: interrupted_once_def)
  have t: "transient ?e"
    by (simp add: transient_def isServerError_def message_includes_def new_Error_def
        js_includes_def indexOf_def)
  have r0: "run_attempt (attempt_world interrupted_once 0) ''hi'' []
      = ([Sent [PartText ''hi''], Yielded ''Dear ''], Some ?e)"
    and r1: "run_attempt (attempt_world interrupted_once 1) ''hi'' []
      = ([Sent [PartText ''hi''], Yielded ''Dear '', Yielded ''user''], None)"
    by (simp_all add: interrupted_once_def run_attempt_no_files yielded_texts_def)
  have q: "\<forall>k. \<not> stopBefore quiet k" by (simp add: quiet_def)
  have l: "\<not> aborted waiting_app" by (simp add: aborted_def waiting_app_def)
  have y0: "yields [Sent [PartText ''hi''], Yielded ''Dear ''] = [''Dear '']"
    and y1: "yields [Sent [PartText ''hi''], Yielded ''Dear '', Yielded ''user''] = [''Dear '', ''user'']"
    by (simp_all add: yields_def)
  have np: "match_json (concat (yields [Sent [PartText ''hi''], Yielded ''Dear ''])
      @ concat (yields [Sent [PartText ''hi''], Yielded ''Dear '', Yielded ''user''])) = None"
    by (simp add: y0 y1)
  from retry_resends_after_partial_stream[OF ready r0 t r1 q l np, of "\<lambda>s. None" 1]
  show ?thesis by (simp add: y0 y1 waiting_app_def)
qed

section \<open>Running a plan\<close>

lemma map_other:
  "\<forall>m\<in>set ms. msg_id m \<noteq> i \<Longrightarrow> map (\<lambda>m. if msg_id m = i then g m else m) ms = ms"
  by (induction ms) auto

lemma show_in_other: "\<forall>m\<in>set ms. msg_id m \<noteq> i \<Longrightarrow> show_in i f ms = ms"
  by (simp add: show_in_def map_other)

lemma executeSteps_step_returns:
  assumes nostop: "\<forall>k. \<not> stopBefore (scheds i) k"
    and live: "\<not> aborted app"
    and fresh: "\<forall>m\<in>set (messages app). msg_id m < nextId app"
    and ret: "snd (streamMessage (worlds i) (stepPrompt plan i step) []) = Returned"
  shows "executeSteps worlds scheds plan i (step # rest) app
         = executeSteps worlds scheds plan (i + 1) rest
             (app\<lparr>executionStep := i + 1,
                  messages := messages app @ [step_done worlds plan (nextId app) i step],
                  nextId := nextId app + 1\<rparr>)"
proof -
  obtain events where sm: "streamMessage (worlds i) (stepPrompt plan i step) [] = (events, Returned)"
    using ret by (cases "streamMessage (worlds i) (stepPrompt plan i step) []") auto
  let ?new = "\<lparr>msg_id = nextId app, role = Model, msg_text = stepHeader i step,
                isError = False, isStreaming = True, planData = None\<rparr>"
  let ?app1 = "app\<lparr>executionStep := i + 1, messages := messages app @ [?new],
                   nextId := nextId app + 1\<rparr>"
  have other: "\<forall>m\<in>set (messages app). msg_id m \<noteq> nextId app" using fresh by auto
  have live1: "\<not> aborted ?app1" using live by (simp add: aborted_def)
  have c: "consume_stream (scheds i) (nextId app) (\<lambda>r. stepHeader i step @ r) 0 (yields events)
             ?app1 [] (startTime (scheds i))
           = (?app1\<lparr>messages := show_in (nextId app)
                 (last_shown (scheds i) (\<lambda>r. stepHeader i step @ r) 0 (yields events) []
                    (startTime (scheds i))) (messages ?app1)\<rparr>,
              concat (yields events), False)"
    using consume_stream_no_stop[OF nostop live1, of "nextId app" "\<lambda>r. stepHeader i step @ r" 0
        "yields events" "[]" "startTime (scheds i)"] by simp
  have "executeSteps worlds scheds plan i (step # rest) app
      = executeSteps worlds scheds plan (i + 1) rest
          (app\<lparr>executionStep := i + 1, nextId := nextId app + 1,
               messages := messages app @ [step_done worlds plan (nextId app) i step]\<rparr>)"
    using live other
    by (simp add: sm c[simplified] Let_def setText_def aborted_def show_in_def map_other
        step_done_def)
  also have "app\<lparr>executionStep := i + 1, nextId := nextId app + 1,
               messages := messages app @ [step_done worlds plan (nextId app) i step]\<rparr>
      = app\<lparr>executionStep := i + 1,
            messages := messages app @ [step_done worlds plan (nextId app) i step],
            nextId := nextId app + 1\<rparr>"
    by simp
  finally show ?thesis .
qed

lemma executeSteps_step_throws:
  assumes nostop: "\<forall>k. \<not> stopBefore (scheds i) k"
    and live: "\<not> aborted app"
    and fresh: "\<forall>m\<in>set (messages app). msg_id m < nextId app"
    and thr: "snd (streamMessage (worlds i) (stepPrompt plan i step) []) = Thrown e"
  shows "executeSteps worlds scheds plan i (step # rest) app
         = (app\<lparr>executionStep := i + 1,
                 messages := messages app @ [step_failed worlds scheds plan (nextId app) i step e],
                 nextId := nextId app + 1,
                 appState := idle,
                 abortControllerRef := None\<rparr>, True)"
proof -
  obtain events where sm: "streamMessage (worlds i) (stepPrompt plan i step) [] = (events, Thrown e)"
    using thr by (cases "streamMessage (worlds i) (stepPrompt plan i step) []") auto
  let ?new = "\<lparr>msg_id = nextId app, role = Model, msg_text = stepHeader i step,
                isError = False, isStreaming = True, planData = None\<rparr>"
  let ?app1 = "app\<lparr>executionStep := i + 1, messages := messages app @ [?new],
                   nextId := nextId app + 1\<rparr>"
  have other: "\<forall>m\<in>set (messages app). msg_id m \<noteq> nextId app" using fresh by auto
  have live1: "\<not> aborted ?app1" using live by (simp add: aborted_def)
  have c: "consume_stream (scheds i) (nextId app) (\<lambda>r. stepHeader i step @ r) 0 (yields events)
             ?app1 [] (startTime (scheds i))
           = (?app1\<lparr>messages := show_in (nextId app)
                 (last_shown (scheds i) (\<lambda>r. stepHeader i step @ r) 0 (yields events) []
                    (startTime (scheds i))) (messages ?app1)\<rparr>,
              concat (yields events), False)"
    using consume_stream_no_stop[OF nostop live1, of "nextId app" "\<lambda>r. stepHeader i step @ r" 0
        "yields events" "[]" "startTime (scheds i)"] by simp
  show ?thesis
    using live other
    by (simp add: sm c[simplified] Let_def setText_def aborted_def show_in_def map_other
        step_failed_def errorText_def)
qed

lemma done_messages_map:
  "done_messages worlds plan n i ss
   = map (\<lambda>k. step_done worlds plan (n + k) (i + k) (ss ! k)) [0..<length ss]"
proof (induction ss arbitrary: n i)
  case Nil
  then show ?case by simp
next
  case (Cons step rest)
  have "[0..<length (step # rest)] = 0 # map Suc [0..<length rest]"
    by (simp add: upt_conv_Cons map_Suc_upt del: upt_Suc)
  then show ?case using Cons.IH[of "n + 1" "i + 1"] by (simp add: comp_def del: upt_Suc)
qed

lemma done_messages_ids:
  "\<forall>m\<in>set (done_messages worlds plan n i ss). n \<le> msg_id m \<and> msg_id m < n + length ss"
proof (induction ss arbitrary: n i)
  case Nil
  then show ?case by simp
next
  case (Cons step rest)
  from Cons.IH[of "n + 1" "i + 1"] show ?case by (auto simp: step_done_def)
qed

lemma after_steps_eq:
  "after_steps worlds plan i ss app
   = app\<lparr>executionStep := (if ss = [] then executionStep app else i + length ss),
         messages := messages app @ done_messages worlds plan (nextId app) i ss,
         nextId := nextId app + length ss\<rparr>"
  by (induction ss arbitrary: i app) simp_all

lemma executeSteps_prefix:
  assumes nostop: "\<forall>i k. \<not> stopBefore (scheds i) k"
  shows "\<not> aborted app \<Longrightarrow> \<forall>m\<in>set (messages app). msg_id m < nextId app \<Longrightarrow>
         \<forall>k<length ss1. snd (streamMessage (worlds (i + k)) (stepPrompt plan (i + k) (ss1 ! k)) [])
            = Returned \<Longrightarrow>
         executeSteps worlds scheds plan i (ss1 @ ss2) app
         = executeSteps worlds scheds plan (i + length ss1) ss2 (after_steps worlds plan i ss1 app)"
proof (induction ss1 arbitrary: i app)
  case Nil
  then show ?case by simp
next
  case (Cons step rest)
  let ?app = "app\<lparr>executionStep := i + 1,
                  messages := messages app @ [step_done worlds plan (nextId app) i step],
                  nextId := nextId app + 1\<rparr>"
  from Cons.prems(3) have ret: "snd (streamMessage (worlds i) (stepPrompt plan i step) []) = Returned"
    by force
  have ns: "\<forall>k. \<not> stopBefore (scheds i) k" using nostop by simp
  have one: "executeSteps worlds scheds plan i ((step # rest) @ ss2) app
      = executeSteps worlds scheds plan (i + 1) (rest @ ss2) ?app"
    using executeSteps_step_returns[where scheds = scheds and worlds = worlds and i = i and rest = "rest @ ss2",
        OF ns Cons.prems(1,2) ret]
    by (simp del: executeSteps.simps)
  have live: "\<not> aborted ?app" using Cons.prems(1) by (simp add: aborted_def)
  have fresh: "\<forall>m\<in>set (messages ?app). msg_id m < nextId ?app"
    using Cons.prems(2) by (auto simp: step_done_def)
  have later: "\<forall>k<length rest.
      snd (streamMessage (worlds (i + 1 + k)) (stepPrompt plan (i + 1 + k) (rest ! k)) []) = Returned"
  proof (intro allI impI)
    fix k assume "k < length rest"
    then have "Suc k < length (step # rest)" by simp
    from Cons.prems(3)[rule_format, OF this] show
      "snd (streamMessage (worlds (i + 1 + k)) (stepPrompt plan (i + 1 + k) (rest ! k)) []) = Returned"
      by simp
  qed
  from Cons.IH[OF live fresh later] one show ?case by (simp del: executeSteps.simps)
qed

lemma executeSteps_all_return:
  assumes nostop: "\<forall>i k. \<not> stopBefore (scheds i) k"
    and live: "\<not> aborted app"
    and fresh: "\<forall>m\<in>set (messages app). msg_id m < nextId app"
    and ok: "\<forall>k<length ss. snd (streamMessage (worlds k) (stepPrompt plan k (ss ! k)) []) = Returned"
  shows "executeSteps worlds scheds plan 0 ss app = (after_steps worlds plan 0 ss app, False)"
proof -
  have "\<forall>k<length ss. snd (streamMessage (worlds (0 + k)) (stepPrompt plan (0 + k) (ss ! k)) [])
      = Returned"
    using ok by simp
  from executeSteps_prefix[OF nostop live fresh this, of "[]"] show ?thesis by simp
qed

lemma executeSteps_fails_at:
  assumes nostop: "\<forall>i k. \<not> stopBefore (scheds i) k"
    and live: "\<not> aborted app"
    and fresh: "\<forall>m\<in>set (messages app). msg_id m < nextId app"
    and j: "j < length ss"
    and ok: "\<forall>k<j. snd (streamMessage (worlds k) (stepPrompt plan k (ss ! k)) []) = Returned"
    and thr: "snd (streamMessage (worlds j) (stepPrompt plan j (ss ! j)) []) = Thrown e"
  shows "executeSteps worlds scheds plan 0 ss app
         = (app\<lparr>executionStep := j + 1,
                 messages := messages app @ done_messages worlds plan (nextId app) 0 (take j ss)
                   @ [step_failed worlds scheds plan (nextId app + j) j (ss ! j) e],
                 nextId := nextId app + j + 1,
                 appState := idle,
                 abortControllerRef := None\<rparr>, True)"
proof -
  let ?mid = "after_steps worlds plan 0 (take j ss) app"
  have split: "ss = take j ss @ (ss ! j) # drop (Suc j) ss"
    using j by (simp add: id_take_nth_drop)
  have lj: "length (take j ss) = j" using j by simp
  have ok': "\<forall>k<length (take j ss).
      snd (streamMessage (worlds (0 + k)) (stepPrompt plan (0 + k) (take j ss ! k)) []) = Returned"
    using ok lj by simp
  have "executeSteps worlds scheds plan 0 (take j ss @ (ss ! j) # drop (Suc j) ss) app
      = executeSteps worlds scheds plan (0 + length (take j ss)) ((ss ! j) # drop (Suc j) ss) ?mid"
    using executeSteps_prefix[OF nostop live fresh ok'] .
  then have a: "executeSteps worlds scheds plan 0 ss app
      = executeSteps worlds scheds plan j ((ss ! j) # drop (Suc j) ss) ?mid"
    using split lj by (simp del: executeSteps.simps)
  have mid: "?mid = app\<lparr>executionStep := (if take j ss = [] then executionStep app else j),
         messages := messages app @ done_messages worlds plan (nextId app) 0 (take j ss),
         nextId := nextId app + j\<rparr>"
    using after_steps_eq[of worlds plan 0 "take j ss" app] lj by simp
  have live': "\<not> aborted ?mid" using live by (simp add: mid aborted_def)
  have fresh': "\<forall>m\<in>set (messages ?mid). msg_id m < nextId ?mid"
    using fresh done_messages_ids[of worlds plan "nextId app" 0 "take j ss"] lj
    by (auto simp: mid)
  have "executeSteps worlds scheds plan j ((ss ! j) # drop (Suc j) ss) ?mid
      = (?mid\<lparr>executionStep := j + 1,
               messages := messages ?mid @ [step_failed worlds scheds plan (nextId ?mid) j (ss ! j) e],
               nextId := nextId ?mid + 1,
               appState := idle,
               abortControllerRef := None\<rparr>, True)"
    using executeSteps_step_throws[where scheds = scheds and worlds = worlds and i = j, OF _ live' fresh' thr] nostop
    by (simp del: executeSteps.simps)
  with a show ?thesis by (simp add: mid del: executeSteps.simps)
qed

lemma streamMessage_answering:
  "streamMessage answering msg [] = ([Sent [PartText msg], Yielded ''done''], Returned)"
  by (simp add: streamMessage_def answering_def streamLoop_0 run_attempt_no_files yielded_texts_def)

lemma streamMessage_failing:
  "streamMessage failing msg [] = ([Sent [PartText msg]], Thrown (new_Error ''API Error: boom''))"
  by (simp add: streamMessage_def failing_def streamLoop_0 run_attempt_no_files yielded_texts_def
      transient_def isNetworkError_def isServerError_def message_includes_def new_Error_def
      js_includes_def indexOf_def friendlyError_def)

lemma executePlan_all_return:
  assumes plan: "currentPlan app = Some plan"
    and fresh: "\<forall>m\<in>set (messages app). msg_id m < nextId app"
    and nostop: "\<forall>i k. \<not> stopBefore (scheds i) k"
    and ok: "\<forall>i<length (steps plan).
               snd (streamMessage (worlds i) (stepPrompt plan i (steps plan ! i)) []) = Returned"
  shows "executePlan worlds scheds app
         = app\<lparr>appState := completed,
               executionStep := 0,
               currentPlan := None,
               abortControllerRef := None,
               nextId := nextId app + length (steps plan),
               messages := messages app
                 @ map (\<lambda>i. step_done worlds plan (nextId app + i) i (steps plan ! i))
                     [0..<length (steps plan)]\<rparr>"
proof -
  let ?app = "app\<lparr>appState := executing, executionStep := 1, abortControllerRef := Some False\<rparr>"
  have live: "\<not> aborted ?app" by (simp add: aborted_def)
  have fresh': "\<forall>m\<in>set (messages ?app). msg_id m < nextId ?app" using fresh by simp
  from executeSteps_all_return[OF nostop live fresh' ok]
  have "executeSteps worlds scheds plan 0 (steps plan) ?app
      = (after_steps worlds plan 0 (steps plan) ?app, False)" .
  then show ?thesis
    by (simp add: executePlan_def plan after_steps_eq done_messages_map)
qed

text \<open>
  C2. A plan is approved in a state whose message ids are all below the id supply, and
  nobody presses stop. The steps before step \<open>j\<close> (counted from 0) run to their end and the
  stream of step \<open>j\<close> throws. Then the run ends in the state given here: the state is idle;
  the transcript is the old transcript, unchanged, followed by one finished message for
  each of the steps before \<open>j\<close> (header and whole response, neither streaming nor errored)
  and one errored message for step \<open>j\<close>; nothing is appended for the steps behind \<open>j\<close>, and
  nothing in the result depends on their worlds: they are never started.
\<close>

theorem executePlan_failure_halts:
  assumes plan: "currentPlan app = Some plan"
    and fresh: "\<forall>m\<in>set (messages app). msg_id m < nextId app"
    and nostop: "\<forall>i k. \<not> stopBefore (scheds i) k"
    and j: "j < length (steps plan)"
    and ok: "\<forall>i<j. snd (streamMessage (worlds i) (stepPrompt plan i (steps plan ! i)) []) = Returned"
    and thr: "snd (streamMessage (worlds j) (stepPrompt plan j (steps plan ! j)) []) = Thrown e"
  shows "executePlan worlds scheds app
         = app\<lparr>appState := idle,
               executionStep := j + 1,
               abortControllerRef := None,
               nextId := nextId app + j + 1,
               messages := messages app
                 @ map (\<lambda>i. step_done worlds plan (nextId app + i) i (steps plan ! i)) [0..<j]
                 @ [step_failed worlds scheds plan (nextId app + j) j (steps plan ! j) e]\<rparr>"
proof -
  let ?app = "app\<lparr>appState := executing, executionStep := 1, abortControllerRef := Some False\<rparr>"
  have live: "\<not> aborted ?app" by (simp add: aborted_def)
  have fresh': "\<forall>m\<in>set (messages ?app). msg_id m < nextId ?app" using fresh by simp
  have dm: "done_messages worlds plan (nextId app) 0 (take j (steps plan))
      = map (\<lambda>i. step_done worlds plan (nextId app + i) i (steps plan ! i)) [0..<j]"
    using j by (simp add: done_messages_map)
  from executeSteps_fails_at[OF nostop live fresh' j ok thr]
  have "executeSteps worlds scheds plan 0 (steps plan) ?app
      = (?app\<lparr>executionStep := j + 1,
               messages := messages ?app @ done_messages worlds plan (nextId ?app) 0 (take j (steps plan))
                 @ [step_failed worlds scheds plan (nextId ?app + j) j (steps plan ! j) e],
               nextId := nextId ?app + j + 1,
               appState := idle,
               abortControllerRef := None\<rparr>, True)" .
  then show ?thesis using dm by (simp add: executePlan_def plan)
qed

theorem executePlan_failure_halts_witness:
  "currentPlan approved_app = Some \<lparr>title = ''T'', steps = [''a'', ''b'', ''c'']\<rparr>
   \<and> appState (executePlan second_step_fails quiet_steps approved_app) = idle
   \<and> messages (executePlan second_step_fails quiet_steps approved_app)
     = messages approved_app @
       [\<lparr>msg_id = 2, role = Model, msg_text = ''**Step 1:** a'' @ [CHR 0x0A, CHR 0x0A] @ ''done'',
         isError = False, isStreaming = False, planData = None\<rparr>,
        \<lparr>msg_id = 3, role = Model,
         msg_text = ''**Step 2:** b'' @ [CHR 0x0A, CHR 0x0A] @ [CHR 0x0A, CHR 0x0A] @ stop_sign
           @ '' **EXECUTION STOPPED:** API Error: boom'',
         isError = True, isStreaming = False, planData = None\<rparr>]"
proof -
  let ?plan = "\<lparr>title = ''T'', steps = [''a'', ''b'', ''c'']\<rparr>"
  have plan: "currentPlan approved_app = Some ?plan" by (simp add: approved_app_def)
  have fresh: "\<forall>m\<in>set (messages approved_app). msg_id m < nextId approved_app"
    by (simp add: approved_app_def)
  have nostop: "\<forall>i k. \<not> stopBefore (quiet_steps i) k" by (simp add: quiet_steps_def quiet_def)
  have j: "1 < length (steps ?plan)" by simp
  have ok: "\<forall>i<1. snd (streamMessage (second_step_fails i) (stepPrompt ?plan i (steps ?plan ! i)) [])
      = Returned"
    by (simp add: second_step_fails_def streamMessage_answering)
  have thr: "snd (streamMessage (second_step_fails 1) (stepPrompt ?plan 1 (steps ?plan ! 1)) [])
      = Thrown (new_Error ''API Error: boom'')"
    by (simp add: second_step_fails_def streamMessage_failing)
  have h1: "stepHeader 0 ''a'' = ''**Step 1:** a'' @ [CHR 0x0A, CHR 0x0A]"
    and h2: "stepHeader (Suc 0) ''b'' = ''**Step 2:** b'' @ [CHR 0x0A, CHR 0x0A]"
    by code_simp+
  have d: "step_done second_step_fails ?plan n 0 ''a''
      = \<lparr>msg_id = n, role = Model, msg_text = ''**Step 1:** a'' @ [CHR 0x0A, CHR 0x0A] @ ''done'',
         isError = False, isStreaming = False, planData = None\<rparr>" for n
    by (simp add: step_done_def second_step_fails_def streamMessage_answering h1 yields_def)
  have f: "step_failed second_step_fails quiet_steps ?plan n (Suc 0) ''b'' (new_Error ''API Error: boom'')
      = \<lparr>msg_id = n, role = Model,
         msg_text = ''**Step 2:** b'' @ [CHR 0x0A, CHR 0x0A] @ [CHR 0x0A, CHR 0x0A] @ stop_sign
           @ '' **EXECUTION STOPPED:** API Error: boom'',
         isError = True, isStreaming = False, planData = None\<rparr>" for n
    by (simp add: step_failed_def second_step_fails_def streamMessage_failing h2 yields_def
        errorText_def new_Error_def)
  from executePlan_failure_halts[OF plan fresh nostop j ok thr] d f plan
  show ?thesis by (simp add: approved_app_def)
qed

text \<open>
  C5. Every step of the approved three-step plan runs to its end. The last assignment of
  \<^verbatim>\<open>executePlan\<close> is \<open>completed\<close> and nothing sets the state to idle afterwards: the plan
  is cleared, but the text area and the quick actions are disabled and the stop button
  stands in place of the send button. (\<open>executePlan_all_return\<close> gives the same final
  state for every plan.)
\<close>

theorem executePlan_success_stays_completed:
  "appState (executePlan all_answering quiet_steps approved_app) = completed
   \<and> currentPlan (executePlan all_answering quiet_steps approved_app) = None
   \<and> length (messages (executePlan all_answering quiet_steps approved_app)) = 5
   \<and> textarea_disabled (executePlan all_answering quiet_steps approved_app)
   \<and> quickAction_disabled (executePlan all_answering quiet_steps approved_app)
   \<and> stopButton_rendered (executePlan all_answering quiet_steps approved_app)"
  by code_simp

text \<open>
  C6. The user presses stop after the first of two deltas. \<^verbatim>\<open>stopGeneration\<close> aborts the
  controller and sets the reference to null, so the loop's test of
  \<^verbatim>\<open>abortControllerRef.current?.signal.aborted\<close> never sees the abort: the second delta is
  consumed, and the final update writes the whole response over the text with the stop
  marker. In a plan run a stop during the first step neither ends that step's stream nor
  keeps the later steps from running.
\<close>

theorem stop_does_not_halt_consumption:
  "messages (handleSendMessage no_plan two_deltas stop_after_first ''hi'' ready_app)
     = [\<lparr>msg_id = 0, role = User, msg_text = ''hi'', isError = False,
          isStreaming = False, planData = None\<rparr>,
        \<lparr>msg_id = 1, role = Model, msg_text = ''Hello world'', isError = False,
          isStreaming = False, planData = None\<rparr>]
   \<and> appState (executePlan all_answering stop_in_first_step approved_app) = completed
   \<and> map msg_text (messages (executePlan all_answering stop_in_first_step approved_app))
     = [''plan it'', ''Here is the plan.'',
        ''**Step 1:** a'' @ [CHR 0x0A, CHR 0x0A] @ ''done'',
        ''**Step 2:** b'' @ [CHR 0x0A, CHR 0x0A] @ ''done'',
        ''**Step 3:** c'' @ [CHR 0x0A, CHR 0x0A] @ ''done'']"
  by code_simp

text \<open>
  C9. A first send is under way (state \<open>planning\<close>, one streaming message). The text area
  is enabled in that state, and \<^verbatim>\<open>handleSendMessage\<close>, which the Enter key calls, returns
  early only when the state is \<open>executing\<close>: the second send is accepted and the transcript
  holds two streaming messages. The send button, by contrast, is disabled whenever the
  state is not idle.
\<close>

theorem second_send_accepted_while_planning:
  "handleSendMessage_start ''hi'' ready_app = Some (waiting_app, 1, [])
   \<and> appState typing_app = planning
   \<and> filter isStreaming (messages typing_app)
       = [\<lparr>msg_id = 1, role = Model, msg_text = [], isError = False,
            isStreaming = True, planData = None\<rparr>]
   \<and> \<not> textarea_disabled typing_app
   \<and> sendButton_disabled typing_app
   \<and> handleSendMessage_start (input typing_app) typing_app = Some (double_app, 3, [])
   \<and> length (filter isStreaming (messages double_app)) = 2"
  by code_simp

section \<open>Worked inputs of the extractor\<close>

text \<open>
  C7, as the specification states it: the closed input is said to give the content
  \<^verbatim>\<open><p>hi</p>\<close> with the white space next to the fences trimmed. The extractor skips white
  space only behind the opening marker; the space in front of the closing fence is part
  of the returned content.
\<close>

theorem extractHtml_closed_example_not_trimmed:
  "extractHtml_tagged ''abc ```html <p>hi</p> ``` def'' \<noteq> Some (''<p>hi</p>'', True)"
  by (simp add: extractHtml_tagged_def match_html_open_def startMarker_def endMarker_def
      indexOf_def substring_def is_space_def)

text \<open>
  C7, amended: on the closed input the content is \<^verbatim>\<open><p>hi</p>\<close> followed by the one space
  that precedes the closing fence, with the closed branch taken; on the streaming prefix
  the content is \<^verbatim>\<open><p>hi\<close> with the open branch taken.
\<close>

theorem extractHtml_examples:
  "extractHtml_tagged ''abc ```html <p>hi</p> ``` def'' = Some (''<p>hi</p> '', True)
   \<and> extractHtml_tagged ''abc ```html <p>hi'' = Some (''<p>hi'', False)"
  by (simp add: extractHtml_tagged_def match_html_open_def startMarker_def endMarker_def
      indexOf_def substring_def is_space_def)

end
